theory Spec2Isabelle
  imports Main "HOL-Library.AList" "HOL-Library.Sublist"
begin

section \<open>The file system\<close>

text \<open>
  The three scripts (\<^verbatim>\<open>1_cleanup_empty_folders.py\<close>, \<^verbatim>\<open>consolidate_auto.py\<close> and
  \<^verbatim>\<open>folder_consolidator.py\<close>) work on the live file system through \<^verbatim>\<open>pathlib\<close>,
  \<^verbatim>\<open>shutil\<close> and \<^verbatim>\<open>hashlib\<close>. A file-system entry is a regular file (with its
  bytes and whether it can be opened for reading), a directory (with its entries in
  enumeration order and whether it can be enumerated), or something that is neither
  (a socket, a device): \<^verbatim>\<open>is_file()\<close> and \<^verbatim>\<open>is_dir()\<close> are both false for it.

  A directory is its listing: the association list of its entries by name. A path
  \<^verbatim>\<open>parent / name\<close> is a name looked up in the listing of \<^verbatim>\<open>parent\<close>. The merge
  engine reads the source trees and writes below the destination only, so a source is the
  tree found at its path and the destination is the listing that the run updates; the
  source trees and the destination do not contain each other. The log file and the
  console output are not part of the model.
\<close>

type_synonym bytes = "char list"

datatype node = File bool bytes | Dir bool "(string \<times> node) list" | Other

type_synonym listing = "(string \<times> node) list"

datatype error = PermissionError | NotADirectoryError | IsADirectoryError
  | FileExistsError | FileNotFoundError | OSError

record stats =
  folders_copied :: nat
  folders_renamed :: nat
  files_copied :: nat
  files_renamed :: nat
  files_skipped :: nat
  errors :: nat

text \<open>
  The file-system calls of the scripts. \<^verbatim>\<open>Path.exists\<close> is true for an entry of any
  kind. \<^verbatim>\<open>Path.iterdir\<close> raises on a directory that cannot be enumerated and on anything
  that is not a directory. \<^verbatim>\<open>mkdir(parents=True, exist_ok=True)\<close> creates a missing
  directory, accepts an existing directory and raises on an existing entry of another kind.
\<close>

definition exists :: "listing \<Rightarrow> string \<Rightarrow> bool" where
  "exists d name = (map_of d name \<noteq> None)"

fun is_file :: "node \<Rightarrow> bool" where
  "is_file (File r c) = True"
| "is_file _ = False"

fun is_dir :: "node \<Rightarrow> bool" where
  "is_dir (Dir l es) = True"
| "is_dir _ = False"

fun iterdir :: "node \<Rightarrow> error + listing" where
  "iterdir (Dir l es) = (if l then Inr es else Inl PermissionError)"
| "iterdir _ = Inl NotADirectoryError"

definition mkdir :: "listing \<Rightarrow> string \<Rightarrow> error + listing" where
  "mkdir d name =
     (case map_of d name of
        None \<Rightarrow> Inr (d @ [(name, Dir True [])])
      | Some (Dir l es) \<Rightarrow> Inr d
      | Some _ \<Rightarrow> Inl FileExistsError)"

text \<open>
  \<^verbatim>\<open>Path.suffix\<close> and \<^verbatim>\<open>Path.stem\<close> of the standard library split a name at its
  last dot, unless that dot is the first or the last character of the name:
  \<^verbatim>\<open>i = name.rfind('.'); if 0 < i < len(name) - 1: name[i:] else ''\<close>.
  \<^verbatim>\<open>str(counter)\<close> is the decimal numeral of the counter.
\<close>

fun rfind :: "char \<Rightarrow> string \<Rightarrow> nat option" where
  "rfind c [] = None"
| "rfind c (x # xs) =
     (case rfind c xs of
        Some i \<Rightarrow> Some (i + 1)
      | None \<Rightarrow> if x = c then Some 0 else None)"

definition suffix_of :: "string \<Rightarrow> string" where
  "suffix_of name =
     (case rfind CHR ''.'' name of
        None \<Rightarrow> []
      | Some i \<Rightarrow> if 0 < i \<and> i + 1 < length name then drop i name else [])"

definition stem_of :: "string \<Rightarrow> string" where
  "stem_of name =
     (case rfind CHR ''.'' name of
        None \<Rightarrow> name
      | Some i \<Rightarrow> if 0 < i \<and> i + 1 < length name then take i name else name)"

fun str :: "nat \<Rightarrow> string" where
  "str n = (if n < 10 then [char_of (48 + n)] else str (n div 10) @ [char_of (48 + n mod 10)])"

declare str.simps [simp del]

definition new_name :: "string \<Rightarrow> nat \<Rightarrow> string \<Rightarrow> string" where
  "new_name stem counter sfx = stem @ ''_'' @ str counter @ sfx"

text \<open>
  Distinct counters give distinct candidate names; the loop of \<^verbatim>\<open>find_available_name\<close>
  terminates on that ground, a listing being finite.
\<close>

lemma str_nonempty: "str n \<noteq> []"
  by (subst str.simps) simp

lemma digit_inj: "m < 10 \<Longrightarrow> n < 10 \<Longrightarrow> (char_of (48 + m) :: char) = char_of (48 + n) \<Longrightarrow> m = (n::nat)"
proof -
  assume a: "m < 10" "n < 10" and e: "(char_of (48 + m) :: char) = char_of (48 + n)"
  from e have "(of_char (char_of (48 + m) :: char) :: nat) = of_char (char_of (48 + n) :: char)"
    by simp
  then have "(48 + m) mod 256 = (48 + n) mod 256"
    by (simp only: of_char_of)
  with a show "m = n" by simp
qed

lemma str_inj: "str m = str n \<Longrightarrow> m = n"
proof (induction m arbitrary: n rule: str.induct)
  case (1 m)
  show ?case
  proof (cases "m < 10")
    case True
    show ?thesis
    proof (cases "n < 10")
      case True
      with \<open>m < 10\<close> "1.prems" show ?thesis
        by (simp add: str.simps[of m] str.simps[of n] digit_inj)
    next
      case False
      with \<open>m < 10\<close> "1.prems" str_nonempty[of "n div 10"] show ?thesis
        by (simp add: str.simps[of m] str.simps[of n])
    qed
  next
    case False
    show ?thesis
    proof (cases "n < 10")
      case True
      with False "1.prems" str_nonempty[of "m div 10"] show ?thesis
        by (simp add: str.simps[of m] str.simps[of n])
    next
      case nf: False
      from False nf "1.prems" have e: "str (m div 10) = str (n div 10)"
        and d: "(char_of (48 + m mod 10) :: char) = char_of (48 + n mod 10)"
        by (simp_all add: str.simps[of m] str.simps[of n])
      from "1.IH"[OF False e] have "m div 10 = n div 10" .
      moreover from d have "m mod 10 = n mod 10"
        by (intro digit_inj) simp_all
      ultimately show ?thesis
        by (metis div_mult_mod_eq)
    qed
  qed
qed

lemma new_name_inj: "new_name stem i sfx = new_name stem j sfx \<Longrightarrow> i = j"
  by (simp add: new_name_def str_inj)

section \<open>The merge engine\<close>

subsection \<open>\<^verbatim>\<open>find_available_name\<close>\<close>

text \<open>
  \<^verbatim>\<open>
  def find_available_name(self, target_path, is_folder=False):
      if not target_path.exists():
          return target_path
      path_obj = Path(target_path)
      stem = path_obj.stem if is_folder else path_obj.stem
      suffix = path_obj.suffix if not is_folder else ""
      parent = path_obj.parent
      counter = 2
      while True:
          new_name = f"{stem}_{counter}{suffix}"
          new_path = parent / new_name
          if not new_path.exists():
              return new_path
          counter += 1
  \<close>
  The target is a name in the listing \<open>d\<close> of its parent, and so is the result.
\<close>

function find_loop :: "listing \<Rightarrow> string \<Rightarrow> string \<Rightarrow> nat \<Rightarrow> string" where
  "find_loop d stem sfx counter =
     (if \<not> exists d (new_name stem counter sfx) then new_name stem counter sfx
      else find_loop d stem sfx (counter + 1))"
  by pat_completeness auto
termination
proof (relation "measure (\<lambda>(d, stem, sfx, counter).
          card {n \<in> fst ` set d. \<exists>k\<ge>counter. n = new_name stem k sfx})")
  show "wf (measure (\<lambda>(d, stem, sfx, counter).
          card {n \<in> fst ` set d. \<exists>k\<ge>counter. n = new_name stem k sfx}))"
    by simp
next
  fix d :: listing and stem sfx :: string and counter :: nat
  assume "\<not> \<not> exists d (new_name stem counter sfx)"
  then have mem: "new_name stem counter sfx \<in> fst ` set d"
    by (auto simp: exists_def dest: map_of_SomeD intro: rev_image_eqI)
  let ?A = "{n \<in> fst ` set d. \<exists>k\<ge>counter + 1. n = new_name stem k sfx}"
  let ?B = "{n \<in> fst ` set d. \<exists>k\<ge>counter. n = new_name stem k sfx}"
  have sub: "?A \<subseteq> ?B"
  proof
    fix n assume "n \<in> ?A"
    then obtain k where "n \<in> fst ` set d" "counter + 1 \<le> k" "n = new_name stem k sfx"
      by blast
    then have "n \<in> fst ` set d \<and> counter \<le> k \<and> n = new_name stem k sfx" by simp
    then show "n \<in> ?B" by blast
  qed
  have inB: "new_name stem counter sfx \<in> ?B" using mem by auto
  have notA: "new_name stem counter sfx \<notin> ?A"
    by (auto dest: new_name_inj)
  have "?A \<subset> ?B" using sub inB notA by blast
  moreover have "finite ?B" by simp
  ultimately have "card ?A < card ?B" by (rule psubset_card_mono[rotated])
  then show "((d, stem, sfx, counter + 1), (d, stem, sfx, counter))
       \<in> measure (\<lambda>(d, stem, sfx, counter).
          card {n \<in> fst ` set d. \<exists>k\<ge>counter. n = new_name stem k sfx})"
    by simp
qed

declare find_loop.simps [simp del]

definition find_available_name :: "listing \<Rightarrow> string \<Rightarrow> bool \<Rightarrow> string" where
  "find_available_name d target is_folder =
     (if \<not> exists d target then target
      else find_loop d (stem_of target) (if \<not> is_folder then suffix_of target else []) 2)"

subsection \<open>\<^verbatim>\<open>get_file_hash\<close> and \<^verbatim>\<open>are_files_identical\<close>\<close>

text \<open>
  \<^verbatim>\<open>hashlib.md5\<close> is a parameter of the model: the function \<open>md5\<close> from the bytes of
  a file to the hexadecimal digest. \<^verbatim>\<open>get_file_hash\<close> returns \<^verbatim>\<open>None\<close> when the file
  cannot be opened and read. The result of \<^verbatim>\<open>are_files_identical\<close> is used as a
  condition, \<^verbatim>\<open>hash1 and hash2 and hash1 == hash2\<close>: a digest that is \<^verbatim>\<open>None\<close> or
  the empty string counts as false.
\<close>

definition get_file_hash :: "(bytes \<Rightarrow> string) \<Rightarrow> node \<Rightarrow> string option" where
  "get_file_hash md5 file_path =
     (case file_path of
        File r c \<Rightarrow> if r then Some (md5 c) else None
      | _ \<Rightarrow> None)"

definition are_files_identical :: "(bytes \<Rightarrow> string) \<Rightarrow> node \<Rightarrow> node \<Rightarrow> bool" where
  "are_files_identical md5 file1 file2 =
     (let hash1 = get_file_hash md5 file1; hash2 = get_file_hash md5 file2
      in case hash1 of
           None \<Rightarrow> False
         | Some h1 \<Rightarrow> h1 \<noteq> [] \<and>
             (case hash2 of None \<Rightarrow> False | Some h2 \<Rightarrow> h2 \<noteq> [] \<and> h1 = h2))"

subsection \<open>\<^verbatim>\<open>copy_file\<close>\<close>

text \<open>
  \<^verbatim>\<open>shutil.copy2(src, dst)\<close> opens the source first and raises when it cannot be read;
  it then writes \<open>dst\<close>: a new file when nothing is there, the file's new content when
  a file is there, and a file named as the source inside \<open>dst\<close> when a directory is
  there. The copy has the source's bytes and permission bits.
\<close>

definition copy2 :: "string \<times> node \<Rightarrow> listing \<Rightarrow> string \<Rightarrow> error + listing" where
  "copy2 src d dst =
     (case snd src of
        File r c \<Rightarrow>
          if \<not> r then Inl PermissionError
          else (case map_of d dst of
                  None \<Rightarrow> Inr (d @ [(dst, File True c)])
                | Some (File r' c') \<Rightarrow> Inr (AList.update dst (File True c) d)
                | Some (Dir l es) \<Rightarrow>
                    (case map_of es (fst src) of
                       Some (Dir l' es') \<Rightarrow> Inl IsADirectoryError
                     | Some Other \<Rightarrow> Inl OSError
                     | _ \<Rightarrow> Inr (AList.update dst
                                 (Dir l (AList.update (fst src) (File True c) es)) d))
                | Some Other \<Rightarrow> Inl OSError)
      | Dir l es \<Rightarrow> Inl IsADirectoryError
      | Other \<Rightarrow> Inl OSError)"

text \<open>
  \<^verbatim>\<open>
  def copy_file(self, source_file, dest_file):
      dest_file.parent.mkdir(parents=True, exist_ok=True)
      try:
          if not dest_file.exists():
              shutil.copy2(source_file, dest_file)
              self.stats['files_copied'] += 1
              return True
          else:
              if self.are_files_identical(source_file, dest_file):
                  self.stats['files_skipped'] += 1
                  return True
              else:
                  new_dest = self.find_available_name(dest_file, is_folder=False)
                  shutil.copy2(source_file, new_dest)
                  self.stats['files_renamed'] += 1
                  return True
      except Exception as e:
          self.stats['errors'] += 1
          return False
  \<close>
  The source file is its name and its node; \<open>d\<close> is the listing of
  \<^verbatim>\<open>dest_file.parent\<close>, which every caller has created before the call.
\<close>

definition copy_file ::
  "(bytes \<Rightarrow> string) \<Rightarrow> string \<times> node \<Rightarrow> listing \<Rightarrow> string \<Rightarrow> stats
     \<Rightarrow> (listing \<times> stats) \<times> bool" where
  "copy_file md5 source_file d dest_file st =
     (case map_of d dest_file of
        None \<Rightarrow>
          (case copy2 source_file d dest_file of
             Inr d' \<Rightarrow> ((d', st\<lparr>files_copied := files_copied st + 1\<rparr>), True)
           | Inl e \<Rightarrow> ((d, st\<lparr>errors := errors st + 1\<rparr>), False))
      | Some existing \<Rightarrow>
          if are_files_identical md5 (snd source_file) existing
          then ((d, st\<lparr>files_skipped := files_skipped st + 1\<rparr>), True)
          else (let new_dest = find_available_name d dest_file False
                in case copy2 source_file d new_dest of
                     Inr d' \<Rightarrow> ((d', st\<lparr>files_renamed := files_renamed st + 1\<rparr>), True)
                   | Inl e \<Rightarrow> ((d, st\<lparr>errors := errors st + 1\<rparr>), False)))"

subsection \<open>\<^verbatim>\<open>copy_folder_tree\<close>\<close>

text \<open>
  \<^verbatim>\<open>
  def copy_folder_tree(self, source_folder, dest_parent):
      dest_folder = dest_parent / source_folder.name
      if dest_folder.exists():
          new_dest_folder = self.find_available_name(dest_folder, is_folder=True)
          dest_folder = new_dest_folder
          self.stats['folders_renamed'] += 1
      dest_folder.mkdir(parents=True, exist_ok=True)
      self.stats['folders_copied'] += 1
      try:
          for item in source_folder.iterdir():
              if item.is_file():
                  self.copy_file(item, dest_folder / item.name)
              elif item.is_dir():
                  self.copy_folder_tree(item, dest_folder)
      except Exception as e:
          self.stats['errors'] += 1
  \<close>
  The directory is created outside the \<^verbatim>\<open>try\<close>: an exception of \<^verbatim>\<open>mkdir\<close> leaves
  the function (\<open>Inl\<close> in the second component of the result) and ends the loop of the
  caller. \<open>copy_items\<close> is the loop inside the \<^verbatim>\<open>try\<close>; an exception that reaches
  it ends it. The version of \<^verbatim>\<open>folder_consolidator.py\<close> returns \<^verbatim>\<open>True\<close> and
  \<^verbatim>\<open>False\<close> where this one returns nothing.
\<close>

function copy_folder_tree ::
  "(bytes \<Rightarrow> string) \<Rightarrow> string \<times> node \<Rightarrow> listing \<Rightarrow> stats
     \<Rightarrow> (listing \<times> stats) \<times> (error + bool)"
and copy_items ::
  "(bytes \<Rightarrow> string) \<Rightarrow> listing \<Rightarrow> listing \<Rightarrow> stats
     \<Rightarrow> (listing \<times> stats) \<times> (error + unit)" where
  "copy_folder_tree md5 source_folder dest_parent st =
     (let dest_folder = fst source_folder;
          renamed = exists dest_parent dest_folder;
          dest_folder = (if renamed then find_available_name dest_parent dest_folder True
                         else dest_folder);
          st = (if renamed then st\<lparr>folders_renamed := folders_renamed st + 1\<rparr> else st)
      in case mkdir dest_parent dest_folder of
           Inl e \<Rightarrow> ((dest_parent, st), Inl e)
         | Inr p \<Rightarrow>
            (let st = st\<lparr>folders_copied := folders_copied st + 1\<rparr>
             in case iterdir (snd source_folder) of
                  Inl e \<Rightarrow> ((p, st\<lparr>errors := errors st + 1\<rparr>), Inr False)
                | Inr items \<Rightarrow>
                   (case map_of p dest_folder of
                      Some (Dir l es) \<Rightarrow>
                        (case copy_items md5 items es st of
                           ((es', st'), Inl e) \<Rightarrow>
                             ((AList.update dest_folder (Dir l es') p,
                               st'\<lparr>errors := errors st' + 1\<rparr>), Inr False)
                         | ((es', st'), Inr u) \<Rightarrow>
                             ((AList.update dest_folder (Dir l es') p, st'), Inr True))
                    | _ \<Rightarrow> ((p, st\<lparr>errors := errors st + 1\<rparr>), Inr False))))"
| "copy_items md5 [] d st = ((d, st), Inr ())"
| "copy_items md5 (item # rest) d st =
     (if is_file (snd item) then
        (case copy_file md5 item d (fst item) st of
           ((d', st'), ok) \<Rightarrow> copy_items md5 rest d' st')
      else if is_dir (snd item) then
        (case copy_folder_tree md5 item d st of
           ((d', st'), Inl e) \<Rightarrow> ((d', st'), Inl e)
         | ((d', st'), Inr ok) \<Rightarrow> copy_items md5 rest d' st')
      else copy_items md5 rest d st)"
  by pat_completeness auto
termination
proof (relation "measure (\<lambda>x. case x of
          Inl (md5, source_folder, dest_parent, st) \<Rightarrow> size (snd source_folder)
        | Inr (md5, items, d, st) \<Rightarrow> size_list (\<lambda>x. Suc (size (snd x))) items)")
  show "wf (measure (\<lambda>x. case x of
          Inl (md5, source_folder, dest_parent, st) \<Rightarrow> size (snd source_folder)
        | Inr (md5, items, d, st) \<Rightarrow> size_list (\<lambda>x. Suc (size (snd x))) items))"
    by simp
next
  fix md5 :: "bytes \<Rightarrow> string" and source_folder :: "string \<times> node" and items :: listing
    and st st0 :: stats and es dest_parent :: listing
  assume "iterdir (snd source_folder) = Inr items"
  then have "snd source_folder = Dir True items"
    by (cases "snd source_folder") (auto split: if_splits)
  then show "(Inr (md5, items, es, st), Inl (md5, source_folder, dest_parent, st0))
       \<in> measure (\<lambda>x. case x of
          Inl (md5, source_folder, dest_parent, st) \<Rightarrow> size (snd source_folder)
        | Inr (md5, items, d, st) \<Rightarrow> size_list (\<lambda>x. Suc (size (snd x))) items)"
    by (simp add: size_prod_simp)
qed (auto simp: size_prod_simp)

declare copy_folder_tree.simps [simp del]

subsection \<open>\<^verbatim>\<open>consolidate\<close>\<close>

text \<open>
  A configured source root is the tree at its path, or \<open>None\<close> when the path does not
  exist. \<^verbatim>\<open>consolidate_auto.py\<close> merges the entries of every source root into the
  master folder; a missing root and an exception of the loop are logged and the next root
  is taken:
  \<^verbatim>\<open>
  for i, source in enumerate(source_folders, 1):
      source_path = Path(source)
      if not source_path.exists():
          self.log(f"ERROR: Source not found: {source_path}", True)
          continue
      try:
          for item in source_path.iterdir():
              if item.is_file():
                  self.copy_file(item, self.master_folder / item.name)
              elif item.is_dir():
                  self.copy_folder_tree(item, self.master_folder)
      except Exception as e:
          self.log(f"ERROR processing {source}: {e}", True)
  \<close>
  \<^verbatim>\<open>folder_consolidator.py\<close> copies every source root as a folder of the master folder;
  its \<^verbatim>\<open>copy_folder_tree\<close> first checks that the source exists:
  \<^verbatim>\<open>
  if not source_folder.exists():
      self.stats['errors'] += 1
      return False
  \<close>
  and its \<^verbatim>\<open>consolidate\<close> is \<^verbatim>\<open>for source in source_folders: self.copy_folder_tree(source)\<close>.
\<close>

fun consolidate_auto ::
  "(bytes \<Rightarrow> string) \<Rightarrow> node option list \<Rightarrow> listing \<Rightarrow> stats \<Rightarrow> listing \<times> stats" where
  "consolidate_auto md5 [] master st = (master, st)"
| "consolidate_auto md5 (source # rest) master st =
     (case source of
        None \<Rightarrow> consolidate_auto md5 rest master st
      | Some source_path \<Rightarrow>
          (case iterdir source_path of
             Inl e \<Rightarrow> consolidate_auto md5 rest master st
           | Inr items \<Rightarrow>
               (case copy_items md5 items master st of
                  ((master', st'), r) \<Rightarrow> consolidate_auto md5 rest master' st')))"

definition copy_folder_tree_fc ::
  "(bytes \<Rightarrow> string) \<Rightarrow> string \<times> node option \<Rightarrow> listing \<Rightarrow> stats
     \<Rightarrow> (listing \<times> stats) \<times> (error + bool)" where
  "copy_folder_tree_fc md5 source_folder dest_parent st =
     (case snd source_folder of
        None \<Rightarrow> ((dest_parent, st\<lparr>errors := errors st + 1\<rparr>), Inr False)
      | Some src \<Rightarrow> copy_folder_tree md5 (fst source_folder, src) dest_parent st)"

fun consolidate ::
  "(bytes \<Rightarrow> string) \<Rightarrow> (string \<times> node option) list \<Rightarrow> listing \<Rightarrow> stats
     \<Rightarrow> (listing \<times> stats) \<times> (error + unit)" where
  "consolidate md5 [] master st = ((master, st), Inr ())"
| "consolidate md5 (source # rest) master st =
     (case copy_folder_tree_fc md5 source master st of
        ((master', st'), Inl e) \<Rightarrow> ((master', st'), Inl e)
      | ((master', st'), Inr ok) \<Rightarrow> consolidate md5 rest master' st')"

subsection \<open>A destination that refuses a directory\<close>

text \<open>
  \<^verbatim>\<open>mkdir\<close> raises \<^verbatim>\<open>OSError\<close> when the file system does not create the directory:
  a name that is not valid or too long there, a path that is too long, a quota. The
  destination is then given with the names under which it creates a directory,
  \<open>accepts\<close>; \<open>mkdir\<close> above is the case of a destination that accepts every name.
  \<open>copy_folder_tree_on\<close>, \<open>copy_items_on\<close> and \<open>consolidate_auto_on\<close> are
  \<^verbatim>\<open>copy_folder_tree\<close>, its loop and \<^verbatim>\<open>consolidate\<close> of \<^verbatim>\<open>consolidate_auto.py\<close> on such
  a destination: the same text, with \<open>mkdir_on accepts\<close> where \<^verbatim>\<open>mkdir\<close> is called.
\<close>

definition mkdir_on :: "(string \<Rightarrow> bool) \<Rightarrow> listing \<Rightarrow> string \<Rightarrow> error + listing" where
  "mkdir_on accepts d name =
     (case map_of d name of
        None \<Rightarrow> if accepts name then Inr (d @ [(name, Dir True [])]) else Inl OSError
      | Some (Dir l es) \<Rightarrow> Inr d
      | Some _ \<Rightarrow> Inl FileExistsError)"

function copy_folder_tree_on ::
  "(string \<Rightarrow> bool) \<Rightarrow> (bytes \<Rightarrow> string) \<Rightarrow> string \<times> node \<Rightarrow> listing \<Rightarrow> stats
     \<Rightarrow> (listing \<times> stats) \<times> (error + bool)"
and copy_items_on ::
  "(string \<Rightarrow> bool) \<Rightarrow> (bytes \<Rightarrow> string) \<Rightarrow> listing \<Rightarrow> listing \<Rightarrow> stats
     \<Rightarrow> (listing \<times> stats) \<times> (error + unit)" where
  "copy_folder_tree_on accepts md5 source_folder dest_parent st =
     (let dest_folder = fst source_folder;
          renamed = exists dest_parent dest_folder;
          dest_folder = (if renamed then find_available_name dest_parent dest_folder True
                         else dest_folder);
          st = (if renamed then st\<lparr>folders_renamed := folders_renamed st + 1\<rparr> else st)
      in case mkdir_on accepts dest_parent dest_folder of
           Inl e \<Rightarrow> ((dest_parent, st), Inl e)
         | Inr p \<Rightarrow>
            (let st = st\<lparr>folders_copied := folders_copied st + 1\<rparr>
             in case iterdir (snd source_folder) of
                  Inl e \<Rightarrow> ((p, st\<lparr>errors := errors st + 1\<rparr>), Inr False)
                | Inr items \<Rightarrow>
                   (case map_of p dest_folder of
                      Some (Dir l es) \<Rightarrow>
                        (case copy_items_on accepts md5 items es st of
                           ((es', st'), Inl e) \<Rightarrow>
                             ((AList.update dest_folder (Dir l es') p,
                               st'\<lparr>errors := errors st' + 1\<rparr>), Inr False)
                         | ((es', st'), Inr u) \<Rightarrow>
                             ((AList.update dest_folder (Dir l es') p, st'), Inr True))
                    | _ \<Rightarrow> ((p, st\<lparr>errors := errors st + 1\<rparr>), Inr False))))"
| "copy_items_on accepts md5 [] d st = ((d, st), Inr ())"
| "copy_items_on accepts md5 (item # rest) d st =
     (if is_file (snd item) then
        (case copy_file md5 item d (fst item) st of
           ((d', st'), ok) \<Rightarrow> copy_items_on accepts md5 rest d' st')
      else if is_dir (snd item) then
        (case copy_folder_tree_on accepts md5 item d st of
           ((d', st'), Inl e) \<Rightarrow> ((d', st'), Inl e)
         | ((d', st'), Inr ok) \<Rightarrow> copy_items_on accepts md5 rest d' st')
      else copy_items_on accepts md5 rest d st)"
  by pat_completeness auto
termination
proof (relation "measure (\<lambda>x. case x of
          Inl (accepts, md5, source_folder, dest_parent, st) \<Rightarrow> size (snd source_folder)
        | Inr (accepts, md5, items, d, st) \<Rightarrow> size_list (\<lambda>x. Suc (size (snd x))) items)")
  show "wf (measure (\<lambda>x. case x of
          Inl (accepts, md5, source_folder, dest_parent, st) \<Rightarrow> size (snd source_folder)
        | Inr (accepts, md5, items, d, st) \<Rightarrow> size_list (\<lambda>x. Suc (size (snd x))) items))"
    by simp
next
  fix accepts :: "string \<Rightarrow> bool" and md5 :: "bytes \<Rightarrow> string"
    and source_folder :: "string \<times> node" and items :: listing
    and st st0 :: stats and es dest_parent :: listing
  assume "iterdir (snd source_folder) = Inr items"
  then have "snd source_folder = Dir True items"
    by (cases "snd source_folder") (auto split: if_splits)
  then show "(Inr (accepts, md5, items, es, st), Inl (accepts, md5, source_folder, dest_parent, st0))
       \<in> measure (\<lambda>x. case x of
          Inl (accepts, md5, source_folder, dest_parent, st) \<Rightarrow> size (snd source_folder)
        | Inr (accepts, md5, items, d, st) \<Rightarrow> size_list (\<lambda>x. Suc (size (snd x))) items)"
    by (simp add: size_prod_simp)
qed (auto simp: size_prod_simp)

declare copy_folder_tree_on.simps [simp del]

fun consolidate_auto_on ::
  "(string \<Rightarrow> bool) \<Rightarrow> (bytes \<Rightarrow> string) \<Rightarrow> node option list \<Rightarrow> listing \<Rightarrow> stats
     \<Rightarrow> listing \<times> stats" where
  "consolidate_auto_on accepts md5 [] master st = (master, st)"
| "consolidate_auto_on accepts md5 (source # rest) master st =
     (case source of
        None \<Rightarrow> consolidate_auto_on accepts md5 rest master st
      | Some source_path \<Rightarrow>
          (case iterdir source_path of
             Inl e \<Rightarrow> consolidate_auto_on accepts md5 rest master st
           | Inr items \<Rightarrow>
               (case copy_items_on accepts md5 items master st of
                  ((master', st'), r) \<Rightarrow> consolidate_auto_on accepts md5 rest master' st')))"

section \<open>The empty-folder cleaner\<close>

text \<open>
  The cleaner works on one tree, the one at \<^verbatim>\<open>folder_path\<close>; a path is the list of
  names from there. \<^verbatim>\<open>rglob('*')\<close> yields the entries of the directory, then those of
  every directory below it, and nothing for a directory that cannot be enumerated (the
  library ignores the \<^verbatim>\<open>PermissionError\<close>). \<^verbatim>\<open>rmdir\<close> removes a directory that has
  no entry and raises otherwise.
  \<^verbatim>\<open>
  def is_folder_empty(self, folder_path):
      try:
          for item in folder_path.rglob('*'):
              if item.is_file():
                  return False
          return True
      except Exception as e:
          return False

  def remove_empty_folders(self, folder_path):
      if not folder_path.exists():
          self.log(f"ERROR: Path does not exist: {folder_path}", True)
          return
      try:
          all_dirs = sorted([d for d in folder_path.rglob('*') if d.is_dir()],
                            key=lambda p: len(p.parts), reverse=True)
          for directory in all_dirs:
              try:
                  if self.is_folder_empty(directory):
                      directory.rmdir()
                      self.stats['empty_folders_deleted'] += 1
              except Exception as e:
                  self.stats['errors'] += 1
      except Exception as e:
          self.stats['errors'] += 1
  \<close>
  A stable sort with \<^verbatim>\<open>reverse=True\<close> is the stable sort by the negated key.
\<close>

record cleaner_stats =
  empty_folders_deleted :: nat
  cleaner_errors :: nat

type_synonym path = "string list"

fun lookup :: "node \<Rightarrow> path \<Rightarrow> node option" where
  "lookup x [] = Some x"
| "lookup (Dir l es) (n # p) = (case map_of es n of None \<Rightarrow> None | Some y \<Rightarrow> lookup y p)"
| "lookup _ (n # p) = None"

definition is_file_at :: "node \<Rightarrow> path \<Rightarrow> bool" where
  "is_file_at fs p = (case lookup fs p of Some x \<Rightarrow> is_file x | None \<Rightarrow> False)"

definition is_dir_at :: "node \<Rightarrow> path \<Rightarrow> bool" where
  "is_dir_at fs p = (case lookup fs p of Some x \<Rightarrow> is_dir x | None \<Rightarrow> False)"

fun rglob :: "node \<Rightarrow> path list" and rglob_sub :: "listing \<Rightarrow> path list" where
  "rglob (Dir l es) = (if l then map (\<lambda>e. [fst e]) es @ rglob_sub es else [])"
| "rglob (File r c) = []"
| "rglob Other = []"
| "rglob_sub [] = []"
| "rglob_sub (e # es) = map ((#) (fst e)) (rglob (snd e)) @ rglob_sub es"

definition rglob_at :: "node \<Rightarrow> path \<Rightarrow> path list" where
  "rglob_at fs p = (case lookup fs p of None \<Rightarrow> [] | Some x \<Rightarrow> map ((@) p) (rglob x))"

definition is_folder_empty :: "node \<Rightarrow> path \<Rightarrow> bool" where
  "is_folder_empty fs folder_path =
     list_all (\<lambda>item. \<not> is_file_at fs item) (rglob_at fs folder_path)"

fun rmdir :: "node \<Rightarrow> path \<Rightarrow> error + node" where
  "rmdir (Dir l es) [n] =
     (case map_of es n of
        None \<Rightarrow> Inl FileNotFoundError
      | Some (Dir l' []) \<Rightarrow> Inr (Dir l (AList.delete n es))
      | Some (Dir l' (e # es')) \<Rightarrow> Inl OSError
      | Some _ \<Rightarrow> Inl NotADirectoryError)"
| "rmdir (Dir l es) (n # m # p) =
     (case map_of es n of
        None \<Rightarrow> Inl FileNotFoundError
      | Some y \<Rightarrow>
          (case rmdir y (m # p) of
             Inl e \<Rightarrow> Inl e
           | Inr y' \<Rightarrow> Inr (Dir l (AList.update n y' es))))"
| "rmdir (Dir l es) [] = Inl OSError"
| "rmdir (File r c) p = Inl NotADirectoryError"
| "rmdir Other p = Inl NotADirectoryError"

definition all_dirs :: "node \<Rightarrow> path list" where
  "all_dirs fs = sort_key (\<lambda>p. - int (length p)) (filter (is_dir_at fs) (rglob_at fs []))"

fun remove_loop :: "path list \<Rightarrow> node \<Rightarrow> cleaner_stats \<Rightarrow> node \<times> cleaner_stats" where
  "remove_loop [] fs st = (fs, st)"
| "remove_loop (directory # rest) fs st =
     (if is_folder_empty fs directory then
        (case rmdir fs directory of
           Inr fs' \<Rightarrow>
             remove_loop rest fs' (st\<lparr>empty_folders_deleted := empty_folders_deleted st + 1\<rparr>)
         | Inl e \<Rightarrow> remove_loop rest fs (st\<lparr>cleaner_errors := cleaner_errors st + 1\<rparr>))
      else remove_loop rest fs st)"

definition remove_empty_folders ::
  "node option \<Rightarrow> cleaner_stats \<Rightarrow> node option \<times> cleaner_stats" where
  "remove_empty_folders folder_path st =
     (case folder_path of
        None \<Rightarrow> (None, st)
      | Some fs \<Rightarrow> (case remove_loop (all_dirs fs) fs st of (fs', st') \<Rightarrow> (Some fs', st')))"

fun clean_sources ::
  "node option list \<Rightarrow> cleaner_stats \<Rightarrow> node option list \<times> cleaner_stats" where
  "clean_sources [] st = ([], st)"
| "clean_sources (source # rest) st =
     (case source of
        None \<Rightarrow> (case clean_sources rest st of (rs, st') \<Rightarrow> (None # rs, st'))
      | Some fs \<Rightarrow>
          (case remove_empty_folders (Some fs) st of
             (r, st1) \<Rightarrow> (case clean_sources rest st1 of (rs, st') \<Rightarrow> (r # rs, st'))))"

section \<open>What a merge writes\<close>

text \<open>
  The reference against which the merge engine is verified. \<open>mirror items\<close> is the
  listing that the items of a source directory give in a directory that has none of their
  names: every readable file with its bytes, every directory with the mirror of its own
  items (an empty directory when it cannot be enumerated), and nothing for a file that cannot
  be read or an entry that is neither file nor directory. \<open>count_folders\<close>,
  \<open>count_files\<close> and \<open>count_failures\<close> count the directories, the readable files, and
  the unreadable files and directories that the walk reaches. \<open>distinct_names\<close> says that
  no directory of the source holds a name twice, as in every file system.
\<close>

fun mirror :: "listing \<Rightarrow> listing" where
  "mirror [] = []"
| "mirror ((n, File r c) # rest) = (if r then (n, File True c) # mirror rest else mirror rest)"
| "mirror ((n, Dir l es) # rest) = (n, Dir True (if l then mirror es else [])) # mirror rest"
| "mirror ((n, Other) # rest) = mirror rest"

fun count_folders :: "listing \<Rightarrow> nat" where
  "count_folders [] = 0"
| "count_folders ((n, Dir l es) # rest) =
     1 + (if l then count_folders es else 0) + count_folders rest"
| "count_folders (_ # rest) = count_folders rest"

fun count_files :: "listing \<Rightarrow> nat" where
  "count_files [] = 0"
| "count_files ((n, File r c) # rest) = (if r then 1 else 0) + count_files rest"
| "count_files ((n, Dir l es) # rest) = (if l then count_files es else 0) + count_files rest"
| "count_files ((n, Other) # rest) = count_files rest"

fun count_failures :: "listing \<Rightarrow> nat" where
  "count_failures [] = 0"
| "count_failures ((n, File r c) # rest) = (if r then 0 else 1) + count_failures rest"
| "count_failures ((n, Dir l es) # rest) =
     (if l then count_failures es else 1) + count_failures rest"
| "count_failures ((n, Other) # rest) = count_failures rest"

fun distinct_names :: "listing \<Rightarrow> bool" where
  "distinct_names [] = True"
| "distinct_names ((n, Dir l es) # rest) =
     (map_of rest n = None \<and> distinct_names es \<and> distinct_names rest)"
| "distinct_names ((n, x) # rest) = (map_of rest n = None \<and> distinct_names rest)"

definition merged_stats :: "stats \<Rightarrow> listing \<Rightarrow> stats" where
  "merged_stats st items =
     st\<lparr>folders_copied := folders_copied st + count_folders items,
        files_copied := files_copied st + count_files items,
        errors := errors st + count_failures items\<rparr>"

text \<open>
  \<open>already_merged md5 items d\<close>: every file among the items can be read and the
  listing \<open>d\<close> has, under the file's name, an entry whose digest is computed and is
  the digest of the file.
\<close>

definition already_merged :: "(bytes \<Rightarrow> string) \<Rightarrow> listing \<Rightarrow> listing \<Rightarrow> bool" where
  "already_merged md5 items d =
     list_all (\<lambda>e. case snd e of
                  File r c \<Rightarrow> r \<and> (case map_of d (fst e) of
                                      Some x \<Rightarrow> get_file_hash md5 x = Some (md5 c)
                                    | None \<Rightarrow> False)
                | _ \<Rightarrow> True) items"

section \<open>What pruning leaves\<close>







section \<open>Name-conflict resolution\<close>

text \<open>
  The name returned by \<^verbatim>\<open>find_available_name\<close> is not in the listing; a target that is
  not in the listing is returned as it is; otherwise the counter of the returned name is the
  least one, from 2, whose candidate is free.
\<close>

lemma find_loop_fresh: "\<not> exists d (find_loop d stem sfx c)"
  by (induction d stem sfx c rule: find_loop.induct) (simp add: find_loop.simps)

lemma find_available_name_fresh: "\<not> exists d (find_available_name d target is_folder)"
  by (simp add: find_available_name_def find_loop_fresh)

lemma find_available_name_missing: "\<not> exists d target \<Longrightarrow> find_available_name d target is_folder = target"
  by (simp add: find_available_name_def)

lemma find_loop_least:
  "\<exists>k\<ge>c. find_loop d stem sfx c = new_name stem k sfx \<and> \<not> exists d (new_name stem k sfx)
      \<and> (\<forall>j. c \<le> j \<and> j < k \<longrightarrow> exists d (new_name stem j sfx))"
proof (induction d stem sfx c rule: find_loop.induct)
  case (1 d stem sfx counter)
  show ?case
  proof (cases "exists d (new_name stem counter sfx)")
    case False
    then show ?thesis
      by (subst find_loop.simps) auto
  next
    case True
    from "1.IH" True obtain k where k: "counter + 1 \<le> k"
      "find_loop d stem sfx (counter + 1) = new_name stem k sfx"
      "\<not> exists d (new_name stem k sfx)"
      "\<forall>j. counter + 1 \<le> j \<and> j < k \<longrightarrow> exists d (new_name stem j sfx)"
      by auto
    have "\<forall>j. counter \<le> j \<and> j < k \<longrightarrow> exists d (new_name stem j sfx)"
    proof (intro allI impI)
      fix j assume "counter \<le> j \<and> j < k"
      then show "exists d (new_name stem j sfx)"
        using True k(4) by (cases "j = counter") auto
    qed
    with k True show ?thesis
      by (subst find_loop.simps) (auto intro!: exI[of _ k])
  qed
qed

text \<open>
  C2. For a file the counter goes before the extension. For a folder the claim has the
  counter after the whole name; the code takes \<^verbatim>\<open>path_obj.stem\<close> for a folder too
  (\<^verbatim>\<open>stem = path_obj.stem if is_folder else path_obj.stem\<close>) and drops the suffix, so the
  sibling of an existing folder \<^verbatim>\<open>v1.0\<close> is \<^verbatim>\<open>v1_2\<close>, not \<^verbatim>\<open>v1.0_2\<close>.
\<close>

theorem find_available_name_folder_drops_extension:
  "find_available_name [(''v1.0'', Dir True [])] ''v1.0'' True = ''v1_2''"
  by code_simp

section \<open>The file copy rule\<close>

lemma get_file_hash_Some: "get_file_hash md5 x = Some h \<longleftrightarrow> (\<exists>c. x = File True c \<and> h = md5 c)"
  by (auto simp: get_file_hash_def split: node.splits)


lemma copy2_fresh:
  "map_of d dst = None \<Longrightarrow> copy2 (n, File True c) d dst = Inr (d @ [(dst, File True c)])"
  by (simp add: copy2_def)

lemma copy2_unhashable:
  "get_file_hash md5 (snd src) = None \<Longrightarrow> \<exists>e. copy2 src d dst = Inl e"
  by (auto simp: copy2_def get_file_hash_def split: node.splits if_splits)

lemma find_available_name_None: "map_of d (find_available_name d target is_folder) = None"
  using find_available_name_fresh[of d target is_folder] by (simp add: exists_def)

lemma are_files_identical_files:
  assumes "\<And>bs. md5 bs \<noteq> []"
  shows "are_files_identical md5 file1 file2 \<longleftrightarrow>
           (\<exists>c1 c2. file1 = File True c1 \<and> file2 = File True c2 \<and> md5 c1 = md5 c2)"
  using assms
  by (cases file1; cases file2)
     (auto simp: are_files_identical_def get_file_hash_def)

lemma copy_file_unreadable:
  "copy_file md5 (name, File False c) d dest_file st = ((d, st\<lparr>errors := errors st + 1\<rparr>), False)"
  by (simp add: copy_file_def copy2_def are_files_identical_def get_file_hash_def
      split: option.splits)

text \<open>
  C1, as claimed: for every source file exactly one of \<open>files_copied\<close>,
  \<open>files_skipped\<close> and \<open>files_renamed\<close> changes, and a file whose destination does not
  exist is copied there. A source file that cannot be read is not copied and changes none
  of the three: \<^verbatim>\<open>shutil.copy2\<close> raises, and the \<^verbatim>\<open>except\<close> branch of \<^verbatim>\<open>copy_file\<close>
  counts it in \<open>errors\<close>.
\<close>

theorem unreadable_source_counterexample:
  "copy_file (\<lambda>bs. CHR ''h'' # bs) (''a.txt'', File False ''x'') [] ''a.txt''
      \<lparr>folders_copied = 0, folders_renamed = 0, files_copied = 0, files_renamed = 0,
        files_skipped = 0, errors = 0\<rparr>
   = (([], \<lparr>folders_copied = 0, folders_renamed = 0, files_copied = 0, files_renamed = 0,
        files_skipped = 0, errors = 1\<rparr>), False)"
  by (simp add: copy_file_def copy2_def)

text \<open>
  C1, amended. A regular source file \<open>F\<close> with bytes \<open>c\<close> and destination \<open>D\<close>. When
  \<open>F\<close> can be read: if \<open>D\<close> does not exist, \<open>F\<close> is copied to \<open>D\<close> and
  \<open>files_copied\<close> grows by one; if \<open>D\<close> is a readable file whose bytes have the digest of
  \<open>c\<close>, the destination listing is unchanged and \<open>files_skipped\<close> grows by one; if \<open>D\<close>
  exists otherwise, \<open>F\<close> is copied to the name that \<^verbatim>\<open>find_available_name\<close> returns for
  \<open>D\<close>, which does not exist, and \<open>files_renamed\<close> grows by one. In each of the three
  branches no other counter changes and no existing entry is touched. When \<open>F\<close> cannot be
  read, nothing is written and only \<open>errors\<close> grows, by one.
\<close>

theorem copy_file_three_way:
  assumes "\<And>bs. md5 bs \<noteq> []"
  shows "copy_file md5 (name, File r c) d dest_file st =
     (if \<not> r then ((d, st\<lparr>errors := errors st + 1\<rparr>), False)
      else case map_of d dest_file of
        None \<Rightarrow>
          ((d @ [(dest_file, File True c)], st\<lparr>files_copied := files_copied st + 1\<rparr>), True)
      | Some existing \<Rightarrow>
          if (case existing of File r' c' \<Rightarrow> r' \<and> md5 c' = md5 c | _ \<Rightarrow> False)
          then ((d, st\<lparr>files_skipped := files_skipped st + 1\<rparr>), True)
          else ((d @ [(find_available_name d dest_file False, File True c)],
                 st\<lparr>files_renamed := files_renamed st + 1\<rparr>), True))
     \<and> map_of d (find_available_name d dest_file False) = None"
proof (cases r)
  case False
  then show ?thesis
    by (simp add: copy_file_unreadable find_available_name_None)
next
  case True
  have ident: "are_files_identical md5 (File True c) existing
                 \<longleftrightarrow> (case existing of File r' c' \<Rightarrow> r' \<and> md5 c' = md5 c | _ \<Rightarrow> False)"
    for existing
    using are_files_identical_files[of md5 "File True c" existing, OF assms]
    by (cases existing) auto
  from True show ?thesis
    by (simp add: copy_file_def ident copy2_fresh find_available_name_None split: option.splits)
qed

theorem copy_file_three_way_witness:
  "copy_file (\<lambda>bs. CHR ''h'' # bs) (''a.txt'', File True ''new'')
      [(''b.txt'', File True ''new'')] ''a.txt''
      \<lparr>folders_copied = 0, folders_renamed = 0, files_copied = 0, files_renamed = 0,
        files_skipped = 0, errors = 0\<rparr>
   = (([(''b.txt'', File True ''new''), (''a.txt'', File True ''new'')],
       \<lparr>folders_copied = 0, folders_renamed = 0, files_copied = 1, files_renamed = 0,
        files_skipped = 0, errors = 0\<rparr>), True)
   \<and> copy_file (\<lambda>bs. CHR ''h'' # bs) (''a.txt'', File True ''new'')
      [(''a.txt'', File True ''new''), (''b.txt'', File True ''old'')] ''a.txt''
      \<lparr>folders_copied = 0, folders_renamed = 0, files_copied = 0, files_renamed = 0,
        files_skipped = 0, errors = 0\<rparr>
   = (([(''a.txt'', File True ''new''), (''b.txt'', File True ''old'')],
       \<lparr>folders_copied = 0, folders_renamed = 0, files_copied = 0, files_renamed = 0,
        files_skipped = 1, errors = 0\<rparr>), True)
   \<and> copy_file (\<lambda>bs. CHR ''h'' # bs) (''a.txt'', File True ''new'')
      [(''a.txt'', File True ''old''), (''b.txt'', File True ''new'')] ''a.txt''
      \<lparr>folders_copied = 0, folders_renamed = 0, files_copied = 0, files_renamed = 0,
        files_skipped = 0, errors = 0\<rparr>
   = (([(''a.txt'', File True ''old''), (''b.txt'', File True ''new''),
        (''a_2.txt'', File True ''new'')],
       \<lparr>folders_copied = 0, folders_renamed = 0, files_copied = 0, files_renamed = 1,
        files_skipped = 0, errors = 0\<rparr>), True)
   \<and> copy_file (\<lambda>bs. CHR ''h'' # bs) (''a.txt'', File False ''new'')
      [(''a.txt'', File True ''new'')] ''a.txt''
      \<lparr>folders_copied = 0, folders_renamed = 0, files_copied = 0, files_renamed = 0,
        files_skipped = 0, errors = 0\<rparr>
   = (([(''a.txt'', File True ''new'')],
       \<lparr>folders_copied = 0, folders_renamed = 0, files_copied = 0, files_renamed = 0,
        files_skipped = 0, errors = 1\<rparr>), False)"
proof -
  let ?md5 = "\<lambda>bs. CHR ''h'' # bs"
  let ?z = "\<lparr>folders_copied = 0, folders_renamed = 0, files_copied = 0, files_renamed = 0,
        files_skipped = 0, errors = 0\<rparr>"
  have nonempty: "\<And>bs. ?md5 bs \<noteq> []" by simp
  have name: "find_available_name [(''a.txt'', File True ''old''), (''b.txt'', File True ''new'')]
                ''a.txt'' False = ''a_2.txt''"
    by code_simp
  note policy = copy_file_three_way[of ?md5, OF nonempty]
  show ?thesis
    using policy[of "''a.txt''" True "''new''" "[(''b.txt'', File True ''new'')]" "''a.txt''" ?z]
      policy[of "''a.txt''" True "''new''"
        "[(''a.txt'', File True ''new''), (''b.txt'', File True ''old'')]" "''a.txt''" ?z]
      policy[of "''a.txt''" True "''new''"
        "[(''a.txt'', File True ''old''), (''b.txt'', File True ''new'')]" "''a.txt''" ?z]
      policy[of "''a.txt''" False "''new''" "[(''a.txt'', File True ''new'')]" "''a.txt''" ?z]
    by (simp add: name)
qed

text \<open>
  C6. \<^verbatim>\<open>are_files_identical\<close> holds exactly when both are regular files that can be read
  and the digests of their bytes are equal. The digest of a file is computed, as \<open>md5\<close> of
  its bytes, exactly when it is a regular file that can be read; in every other case the pair
  is not identical. Then \<^verbatim>\<open>copy_file\<close> on an existing destination does not skip: when the
  destination cannot be hashed, a readable source is copied to the free sibling name and
  counted in \<open>files_renamed\<close>; when the source cannot be hashed, the copy fails and is
  counted in \<open>errors\<close>.
\<close>

theorem are_files_identical_digests:
  assumes "\<And>bs. md5 bs \<noteq> []"
  shows "(are_files_identical md5 file1 file2 \<longleftrightarrow>
            (\<exists>c1 c2. file1 = File True c1 \<and> file2 = File True c2 \<and> md5 c1 = md5 c2))
     \<and> get_file_hash md5 (File True c) = Some (md5 c)
     \<and> (get_file_hash md5 file1 = None \<longleftrightarrow> (\<forall>c1. file1 \<noteq> File True c1))
     \<and> (map_of d dest_file = Some existing \<and> (\<forall>c'. existing \<noteq> File True c')
            \<longrightarrow> copy_file md5 (name, File True c) d dest_file st =
                  ((d @ [(find_available_name d dest_file False, File True c)],
                    st\<lparr>files_renamed := files_renamed st + 1\<rparr>), True))
     \<and> (map_of d dest_file = Some existing \<and> (\<forall>c'. snd source_file \<noteq> File True c')
            \<longrightarrow> copy_file md5 source_file d dest_file st =
                  ((d, st\<lparr>errors := errors st + 1\<rparr>), False))"
proof (intro conjI impI)
  show "are_files_identical md5 file1 file2 \<longleftrightarrow>
            (\<exists>c1 c2. file1 = File True c1 \<and> file2 = File True c2 \<and> md5 c1 = md5 c2)"
    by (rule are_files_identical_files[OF assms])
  show "get_file_hash md5 (File True c) = Some (md5 c)"
    by (simp add: get_file_hash_def)
  show "get_file_hash md5 file1 = None \<longleftrightarrow> (\<forall>c1. file1 \<noteq> File True c1)"
    by (cases file1) (auto simp: get_file_hash_def)
  show "copy_file md5 (name, File True c) d dest_file st =
          ((d @ [(find_available_name d dest_file False, File True c)],
            st\<lparr>files_renamed := files_renamed st + 1\<rparr>), True)"
    if h: "map_of d dest_file = Some existing \<and> (\<forall>c'. existing \<noteq> File True c')"
  proof -
    from h have "\<not> are_files_identical md5 (File True c) existing"
      by (simp add: are_files_identical_files[OF assms])
    with h show ?thesis
      by (simp add: copy_file_def copy2_fresh find_available_name_None)
  qed
  show "copy_file md5 source_file d dest_file st = ((d, st\<lparr>errors := errors st + 1\<rparr>), False)"
    if h: "map_of d dest_file = Some existing \<and> (\<forall>c'. snd source_file \<noteq> File True c')"
  proof -
    from h have ni: "\<not> are_files_identical md5 (snd source_file) existing"
      by (simp add: are_files_identical_files[OF assms])
    from h have "get_file_hash md5 (snd source_file) = None"
      by (cases "snd source_file") (auto simp: get_file_hash_def)
    with copy2_unhashable obtain e where
      "copy2 source_file d (find_available_name d dest_file False) = Inl e"
      by blast
    with h ni show ?thesis by (simp add: copy_file_def)
  qed
qed

theorem are_files_identical_digests_witness:
  "are_files_identical (\<lambda>bs. CHR ''h'' # bs) (File True ''abc'') (File True ''abc'')
   \<and> \<not> are_files_identical (\<lambda>bs. CHR ''h'' # bs) (File True ''abc'') (File True ''abd'')
   \<and> \<not> are_files_identical (\<lambda>bs. CHR ''h'' # bs) (File True ''abc'') (File False ''abc'')
   \<and> copy_file (\<lambda>bs. CHR ''h'' # bs) (''a.txt'', File True ''abc'')
        [(''a.txt'', File False ''abc'')] ''a.txt''
        \<lparr>folders_copied = 0, folders_renamed = 0, files_copied = 0, files_renamed = 0,
          files_skipped = 0, errors = 0\<rparr>
      = (([(''a.txt'', File False ''abc''), (''a_2.txt'', File True ''abc'')],
          \<lparr>folders_copied = 0, folders_renamed = 0, files_copied = 0, files_renamed = 1,
            files_skipped = 0, errors = 0\<rparr>), True)
   \<and> copy_file (\<lambda>bs. CHR ''h'' # bs) (''a.txt'', File False ''abc'')
        [(''a.txt'', File True ''abc'')] ''a.txt''
        \<lparr>folders_copied = 0, folders_renamed = 0, files_copied = 0, files_renamed = 0,
          files_skipped = 0, errors = 0\<rparr>
      = (([(''a.txt'', File True ''abc'')],
          \<lparr>folders_copied = 0, folders_renamed = 0, files_copied = 0, files_renamed = 0,
            files_skipped = 0, errors = 1\<rparr>), False)"
proof -
  let ?md5 = "\<lambda>bs. CHR ''h'' # bs"
  let ?z = "\<lparr>folders_copied = 0, folders_renamed = 0, files_copied = 0, files_renamed = 0,
          files_skipped = 0, errors = 0\<rparr>"
  have nonempty: "\<And>bs. ?md5 bs \<noteq> []" by simp
  have name: "find_available_name [(''a.txt'', File False ''abc'')] ''a.txt'' False = ''a_2.txt''"
    by code_simp
  note digests = are_files_identical_digests[of ?md5, OF nonempty]
  show ?thesis
    using digests[of "File True ''abc''" "File True ''abc''"]
      digests[of "File True ''abc''" "File True ''abd''"]
      digests[of "File True ''abc''" "File False ''abc''" "''abc''"
        "[(''a.txt'', File False ''abc'')]" "''a.txt''" "File False ''abc''" "''a.txt''" ?z]
      digests[of "File True ''abc''" "File True ''abc''" "''abc''"
        "[(''a.txt'', File True ''abc'')]" "''a.txt''" "File True ''abc''" "''a.txt''" ?z
        "(''a.txt'', File False ''abc'')"]
    by (simp add: name)
qed

section \<open>Missing roots\<close>

text \<open>
  C8. A source root that does not exist is skipped and the run goes on. Only
  \<^verbatim>\<open>folder_consolidator.py\<close> counts it in \<open>errors\<close>; \<^verbatim>\<open>consolidate_auto.py\<close> and the
  cleaner log \<^verbatim>\<open>ERROR: Source not found\<close> and leave the counter as it is.
\<close>

theorem missing_root_not_counted:
  "consolidate_auto md5 [None] master st = (master, st)
   \<and> clean_sources [None] cst = ([None], cst)
   \<and> remove_empty_folders None cst = (None, cst)
   \<and> consolidate md5 [(name, None)] master st
       = ((master, st\<lparr>errors := errors st + 1\<rparr>), Inr ())"
  by (simp add: remove_empty_folders_def copy_folder_tree_fc_def)

section \<open>The directory merge rule\<close>

text \<open>
  The folder that \<^verbatim>\<open>copy_folder_tree\<close> creates has the name returned by
  \<^verbatim>\<open>find_available_name\<close>, which is the source's name when that is free. The name is
  never in the listing of the parent, so \<^verbatim>\<open>mkdir\<close> creates a new, empty directory and
  never raises, and the items of the source are copied into that directory alone.
\<close>

lemma update_append_fresh:
  "map_of xs k = None \<Longrightarrow> AList.update k v (xs @ [(k, w)]) = xs @ [(k, v)]"
  by (induction xs) (auto split: if_splits)

lemma dest_folder_name:
  "(if exists d name then find_available_name d name True else name)
     = find_available_name d name True"
  by (simp add: find_available_name_missing)

lemma mkdir_fresh: "map_of d name = None \<Longrightarrow> mkdir d name = Inr (d @ [(name, Dir True [])])"
  by (simp add: mkdir_def)

lemma map_of_snoc_fresh: "map_of d name = None \<Longrightarrow> map_of (d @ [(name, x)]) name = Some x"
  by (simp add: map_of_append map_add_def)

lemma copy_folder_tree_unfold:
  "copy_folder_tree md5 (name, src) parent st =
     (let dest_folder = find_available_name parent name True;
          st1 = (if exists parent name then st\<lparr>folders_renamed := folders_renamed st + 1\<rparr>
                 else st);
          st2 = st1\<lparr>folders_copied := folders_copied st1 + 1\<rparr>
      in case iterdir src of
           Inl e \<Rightarrow> ((parent @ [(dest_folder, Dir True [])],
                      st2\<lparr>errors := errors st2 + 1\<rparr>), Inr False)
         | Inr items \<Rightarrow>
             (case copy_items md5 items [] st2 of
                ((es', st'), Inl e) \<Rightarrow>
                  ((parent @ [(dest_folder, Dir True es')],
                    st'\<lparr>errors := errors st' + 1\<rparr>), Inr False)
              | ((es', st'), Inr u) \<Rightarrow>
                  ((parent @ [(dest_folder, Dir True es')], st'), Inr True)))"
proof -
  define dn where "dn = find_available_name parent name True"
  have fresh: "map_of parent dn = None"
    unfolding dn_def by (rule find_available_name_None)
  have dn: "(if exists parent name then find_available_name parent name True else name) = dn"
    unfolding dn_def by (rule dest_folder_name)
  have look: "map_of (parent @ [(dn, Dir True [])]) dn = Some (Dir True [])"
    by (rule map_of_snoc_fresh[OF fresh])
  have upd: "AList.update dn v (parent @ [(dn, Dir True [])]) = parent @ [(dn, v)]" for v
    by (rule update_append_fresh[OF fresh])
  have "copy_folder_tree md5 (name, src) parent st =
     (let st1 = (if exists parent name then st\<lparr>folders_renamed := folders_renamed st + 1\<rparr>
                 else st);
          st2 = st1\<lparr>folders_copied := folders_copied st1 + 1\<rparr>
      in case iterdir src of
           Inl e \<Rightarrow> ((parent @ [(dn, Dir True [])],
                      st2\<lparr>errors := errors st2 + 1\<rparr>), Inr False)
         | Inr items \<Rightarrow>
             (case copy_items md5 items [] st2 of
                ((es', st'), Inl e) \<Rightarrow>
                  ((parent @ [(dn, Dir True es')],
                    st'\<lparr>errors := errors st' + 1\<rparr>), Inr False)
              | ((es', st'), Inr u) \<Rightarrow>
                  ((parent @ [(dn, Dir True es')], st'), Inr True)))"
    apply (subst copy_folder_tree.simps)
    apply (simp only: Let_def fst_conv snd_conv dn mkdir_fresh[OF fresh] sum.case look
        option.case node.case upd)
    done
  then show ?thesis
    by (simp only: dn_def Let_def)
qed

lemma copy2_missing:
  "map_of d dst = None \<Longrightarrow>
   copy2 src d dst =
     (case snd src of
        File r c \<Rightarrow> if r then Inr (d @ [(dst, File True c)]) else Inl PermissionError
      | Dir l es \<Rightarrow> Inl IsADirectoryError
      | Other \<Rightarrow> Inl OSError)"
  by (simp add: copy2_def split: node.splits)

lemma copy_file_extends: "\<exists>new st' ok. copy_file md5 src d dest st = ((d @ new, st'), ok)"
proof -
  have app: "\<exists>new st' ok. ((d @ [x], s), b) = ((d @ new, st'), ok)"
    for x :: "string \<times> node" and s :: stats and b :: bool
    by blast
  have same: "\<exists>new st' ok. ((d, s), b) = ((d @ new, st'), ok)" for s :: stats and b :: bool
    by (intro exI[of _ "[]"] exI[of _ s] exI[of _ b]) simp
  show ?thesis
  proof (cases "map_of d dest")
    case None
    then show ?thesis
      by (cases "snd src") (auto simp: copy_file_def copy2_missing)
  next
    case (Some existing)
    have fr: "map_of d (find_available_name d dest False) = None"
      by (rule find_available_name_None)
    show ?thesis
    proof (cases "are_files_identical md5 (snd src) existing")
      case True
      with Some show ?thesis by (auto simp: copy_file_def)
    next
      case False
      with Some show ?thesis
        by (cases "snd src") (auto simp: copy_file_def copy2_missing[OF fr])
    qed
  qed
qed

lemma copy_folder_tree_extends:
  "\<exists>es' st' ok. copy_folder_tree md5 (name, src) parent st =
      ((parent @ [(find_available_name parent name True, Dir True es')], st'), Inr ok)"
proof (cases "iterdir src")
  case (Inl e)
  then show ?thesis
    by (auto simp: copy_folder_tree_unfold Let_def)
next
  case (Inr items)
  define st2 where "st2 = (if exists parent name
      then st\<lparr>folders_renamed := folders_renamed st + 1\<rparr> else st)
        \<lparr>folders_copied := folders_copied (if exists parent name
      then st\<lparr>folders_renamed := folders_renamed st + 1\<rparr> else st) + 1\<rparr>"
  obtain es' st' r where "copy_items md5 items [] st2 = ((es', st'), r)"
    by (metis surj_pair)
  with Inr show ?thesis
    by (cases r) (auto simp: copy_folder_tree_unfold Let_def st2_def)
qed

lemma copy_items_extends: "\<exists>new st'. copy_items md5 items d st = ((d @ new, st'), Inr ())"
proof (induction items arbitrary: d st)
  case Nil
  show ?case by simp
next
  case (Cons item rest)
  show ?case
  proof (cases "is_file (snd item)")
    case True
    obtain new st1 ok where c: "copy_file md5 item d (fst item) st = ((d @ new, st1), ok)"
      using copy_file_extends by blast
    obtain new' st' where "copy_items md5 rest (d @ new) st1 = (((d @ new) @ new', st'), Inr ())"
      using Cons.IH by blast
    with c True show ?thesis by simp
  next
    case False
    show ?thesis
    proof (cases "is_dir (snd item)")
      case True
      obtain es' st1 ok where c: "copy_folder_tree md5 item d st =
          ((d @ [(find_available_name d (fst item) True, Dir True es')], st1), Inr ok)"
        using copy_folder_tree_extends[of md5 "fst item" "snd item" d st] by auto
      obtain new' st' where "copy_items md5 rest
           (d @ [(find_available_name d (fst item) True, Dir True es')]) st1 =
          (((d @ [(find_available_name d (fst item) True, Dir True es')]) @ new', st'), Inr ())"
        using Cons.IH by blast
      with c True False show ?thesis by simp
    next
      case nd: False
      with False Cons.IH[of d st] show ?thesis by simp
    qed
  qed
qed

lemma copy_file_missing:
  "map_of d n = None \<Longrightarrow>
   copy_file md5 (n, File r c) d n st =
     (if r then ((d @ [(n, File True c)], st\<lparr>files_copied := files_copied st + 1\<rparr>), True)
      else ((d, st\<lparr>errors := errors st + 1\<rparr>), False))"
  by (simp add: copy_file_def copy2_missing)

lemma copy_items_mirror:
  "distinct_names items \<Longrightarrow> \<forall>n\<in>fst ` set items. map_of d n = None \<Longrightarrow>
   copy_items md5 items d st = ((d @ mirror items, merged_stats st items), Inr ())"
proof (induction items arbitrary: d st rule: mirror.induct)
  case 1
  show ?case by (simp add: merged_stats_def)
next
  case (2 n r c rest)
  from "2.prems" have dn: "map_of d n = None" and nr: "n \<notin> fst ` set rest"
    and dist: "distinct_names rest" and fresh: "\<forall>m\<in>fst ` set rest. map_of d m = None"
    by (auto simp: map_of_eq_None_iff)
  show ?case
  proof (cases r)
    case True
    have "\<forall>m\<in>fst ` set rest. map_of (d @ [(n, File True c)]) m = None"
      using fresh nr by (auto simp: map_of_append map_add_def)
    from "2.IH"(1)[OF True dist this] True dn show ?thesis
      by (simp add: copy_file_missing merged_stats_def)
  next
    case False
    from "2.IH"(2)[OF False dist fresh] False dn show ?thesis
      by (simp add: copy_file_missing merged_stats_def)
  qed
next
  case (3 n l es rest)
  from "3.prems" have dn: "map_of d n = None" and nr: "n \<notin> fst ` set rest"
    and dist: "distinct_names rest" and diste: "distinct_names es"
    and fresh: "\<forall>m\<in>fst ` set rest. map_of d m = None"
    by (auto simp: map_of_eq_None_iff)
  have name: "find_available_name d n True = n" and ne: "\<not> exists d n"
    using dn by (simp_all add: find_available_name_missing exists_def)
  have fresh': "\<forall>m\<in>fst ` set rest. map_of (d @ [(n, x)]) m = None" for x
    using fresh nr by (auto simp: map_of_append map_add_def)
  show ?case
  proof (cases l)
    case True
    have sub: "copy_items md5 es [] (st\<lparr>folders_copied := folders_copied st + 1\<rparr>)
        = (([] @ mirror es, merged_stats (st\<lparr>folders_copied := folders_copied st + 1\<rparr>) es),
           Inr ())"
      by (rule "3.IH"(1)[OF True diste]) simp
    have tree: "copy_folder_tree md5 (n, Dir l es) d st =
        ((d @ [(n, Dir True (mirror es))],
          merged_stats (st\<lparr>folders_copied := folders_copied st + 1\<rparr>) es), Inr True)"
      using True sub by (simp add: copy_folder_tree_unfold name ne)
    from "3.IH"(2)[OF dist fresh'] tree True show ?thesis
      by (simp add: merged_stats_def)
  next
    case False
    have tree: "copy_folder_tree md5 (n, Dir l es) d st =
        ((d @ [(n, Dir True [])],
          st\<lparr>folders_copied := folders_copied st + 1, errors := errors st + 1\<rparr>), Inr False)"
      using False by (simp add: copy_folder_tree_unfold name ne)
    from "3.IH"(2)[OF dist fresh'] tree False show ?thesis
      by (simp add: merged_stats_def)
  qed
next
  case (4 n rest)
  from "4.prems" have dist: "distinct_names rest"
    and fresh: "\<forall>m\<in>fst ` set rest. map_of d m = None"
    by auto
  from "4.IH"[OF dist fresh] show ?case
    by (simp add: merged_stats_def)
qed

section \<open>Nothing that exists is overwritten\<close>

lemma copy_file_writes:
  "\<exists>new st' ok. copy_file md5 src d dest st = ((d @ new, st'), ok)
      \<and> (new = [] \<or> (\<exists>n x. new = [(n, x)] \<and> map_of d n = None))"
proof (cases "map_of d dest")
  case None
  then show ?thesis
    by (cases "snd src") (auto simp: copy_file_def copy2_missing)
next
  case (Some existing)
  have fr: "map_of d (find_available_name d dest False) = None"
    by (rule find_available_name_None)
  show ?thesis
  proof (cases "are_files_identical md5 (snd src) existing")
    case True
    with Some show ?thesis by (auto simp: copy_file_def)
  next
    case False
    with Some fr show ?thesis
      by (cases "snd src") (auto simp: copy_file_def copy2_missing[OF fr])
  qed
qed

lemma consolidate_auto_prefix: "prefix master (fst (consolidate_auto md5 sources master st))"
proof (induction sources arbitrary: master st)
  case Nil
  show ?case by simp
next
  case (Cons source rest)
  show ?case
  proof (cases source)
    case None
    with Cons.IH[of master st] show ?thesis by simp
  next
    case (Some source_path)
    show ?thesis
    proof (cases "iterdir source_path")
      case (Inl e)
      with Some Cons.IH[of master st] show ?thesis by simp
    next
      case (Inr items)
      obtain new st' where c: "copy_items md5 items master st = ((master @ new, st'), Inr ())"
        using copy_items_extends by blast
      have "prefix master (master @ new)" by simp
      also have "prefix (master @ new) (fst (consolidate_auto md5 rest (master @ new) st'))"
        by (rule Cons.IH)
      finally show ?thesis using Some Inr c by simp
    qed
  qed
qed

lemma consolidate_prefix: "prefix master (fst (fst (consolidate md5 roots master st)))"
proof (induction roots arbitrary: master st)
  case Nil
  show ?case by simp
next
  case (Cons source rest)
  show ?case
  proof (cases "snd source")
    case None
    with Cons.IH[of master "st\<lparr>errors := errors st + 1\<rparr>"] show ?thesis
      by (simp add: copy_folder_tree_fc_def)
  next
    case (Some src)
    obtain es' st' ok where c: "copy_folder_tree md5 (fst source, src) master st =
        ((master @ [(find_available_name master (fst source) True, Dir True es')], st'), Inr ok)"
      using copy_folder_tree_extends by blast
    have "prefix master (master @ [(find_available_name master (fst source) True, Dir True es')])"
      by simp
    also have "prefix (master @ [(find_available_name master (fst source) True, Dir True es')])
       (fst (fst (consolidate md5 rest
          (master @ [(find_available_name master (fst source) True, Dir True es')]) st')))"
      by (rule Cons.IH)
    finally show ?thesis using Some c by (simp add: copy_folder_tree_fc_def)
  qed
qed

text \<open>
  C10. After a run of either script the listing of the master folder is the listing before
  the run followed by new entries: every entry that existed, with the whole tree below it, is
  as it was. Each call of \<^verbatim>\<open>copy_file\<close> leaves the destination listing as it is or adds
  one entry under a name that did not exist.
\<close>

theorem merge_never_overwrites:
  "prefix master (fst (consolidate_auto md5 sources master st))
   \<and> prefix master (fst (fst (consolidate md5 roots master st)))
   \<and> (\<exists>new st' ok. copy_file md5 source_file d dest_file st = ((d @ new, st'), ok)
         \<and> (new = [] \<or> (\<exists>n x. new = [(n, x)] \<and> map_of d n = None)))"
  using consolidate_auto_prefix[of master md5 sources st]
    consolidate_prefix[of master md5 roots st]
    copy_file_writes[of md5 source_file d dest_file st]
  by (intro conjI)

section \<open>Colliding directories\<close>

lemma copy_folder_tree_mirror:
  assumes "distinct_names items"
  shows "copy_folder_tree md5 (name, Dir True items) dest_parent st =
     ((dest_parent @ [(find_available_name dest_parent name True, Dir True (mirror items))],
       merged_stats
         ((if exists dest_parent name then st\<lparr>folders_renamed := folders_renamed st + 1\<rparr>
           else st)\<lparr>folders_copied := folders_copied
              (if exists dest_parent name then st\<lparr>folders_renamed := folders_renamed st + 1\<rparr>
               else st) + 1\<rparr>) items), Inr True)"
proof -
  have "copy_items md5 items [] s = (([] @ mirror items, merged_stats s items), Inr ())" for s
    by (rule copy_items_mirror[OF assms]) simp
  then show ?thesis
    by (simp add: copy_folder_tree_unfold Let_def)
qed

text \<open>
  C4. A source directory whose name exists in the destination parent is created under the
  name returned by \<^verbatim>\<open>find_available_name\<close>, which does not exist; the new directory holds
  the mirror of the source's items and nothing else, and the listing of the parent, with the
  directory of the same name, is unchanged. Two source roots that each hold a directory
  \<^verbatim>\<open>Photos\<close> give \<^verbatim>\<open>Photos\<close> and \<^verbatim>\<open>Photos_2\<close>, each with the files of its own source.
\<close>

theorem directory_collision_wholesale:
  assumes "exists dest_parent name" and "distinct_names items"
  shows "copy_folder_tree md5 (name, Dir True items) dest_parent st =
     ((dest_parent @ [(find_available_name dest_parent name True, Dir True (mirror items))],
       merged_stats (st\<lparr>folders_renamed := folders_renamed st + 1,
                        folders_copied := folders_copied st + 1\<rparr>) items), Inr True)
     \<and> \<not> exists dest_parent (find_available_name dest_parent name True)"
  using assms(1) copy_folder_tree_mirror[OF assms(2), of md5 name dest_parent st]
    find_available_name_fresh[of dest_parent name True]
  by simp

theorem directory_collision_wholesale_witness:
  "consolidate_auto (\<lambda>bs. CHR ''h'' # bs)
     [Some (Dir True [(''Photos'', Dir True [(''a.jpg'', File True ''A'')])]),
      Some (Dir True [(''Photos'', Dir True [(''b.jpg'', File True ''B'')])])]
     []
     \<lparr>folders_copied = 0, folders_renamed = 0, files_copied = 0, files_renamed = 0,
       files_skipped = 0, errors = 0\<rparr>
   = ([(''Photos'', Dir True [(''a.jpg'', File True ''A'')]),
       (''Photos_2'', Dir True [(''b.jpg'', File True ''B'')])],
      \<lparr>folders_copied = 2, folders_renamed = 1, files_copied = 2, files_renamed = 0,
        files_skipped = 0, errors = 0\<rparr>)"
proof -
  let ?md5 = "\<lambda>bs. CHR ''h'' # bs"
  let ?st0 = "\<lparr>folders_copied = 0, folders_renamed = 0, files_copied = 0, files_renamed = 0,
       files_skipped = 0, errors = 0\<rparr>"
  let ?st1 = "\<lparr>folders_copied = 1, folders_renamed = 0, files_copied = 1, files_renamed = 0,
       files_skipped = 0, errors = 0\<rparr>"
  let ?m1 = "[(''Photos'', Dir True [(''a.jpg'', File True ''A'')])]"
  have first: "copy_folder_tree ?md5 (''Photos'', Dir True [(''a.jpg'', File True ''A'')]) [] ?st0
      = ((?m1, ?st1), Inr True)"
    using copy_folder_tree_mirror[of "[(''a.jpg'', File True ''A'')]" ?md5 "''Photos''" "[]" ?st0]
    by (simp add: exists_def find_available_name_def merged_stats_def)
  have ex: "exists ?m1 ''Photos''" by (simp add: exists_def)
  have dn: "distinct_names [(''b.jpg'', File True ''B'')]" by simp
  have name: "find_available_name ?m1 ''Photos'' True = ''Photos_2''" by code_simp
  have second: "copy_folder_tree ?md5 (''Photos'', Dir True [(''b.jpg'', File True ''B'')]) ?m1 ?st1
      = ((?m1 @ [(''Photos_2'', Dir True [(''b.jpg'', File True ''B'')])],
          \<lparr>folders_copied = 2, folders_renamed = 1, files_copied = 2, files_renamed = 0,
            files_skipped = 0, errors = 0\<rparr>), Inr True)"
    using directory_collision_wholesale[OF ex dn, of ?md5 ?st1]
    by (simp add: name merged_stats_def)
  show ?thesis
    by (simp add: first[simplified] second[simplified])
qed

section \<open>Failures and the loop\<close>

text \<open>
  A failure in the source stays where it happens. The items of a source directory are
  merged into a directory that has none of their names, on a destination that accepts every
  name: the loop is never left by an exception, the result holds the mirror of every item,
  whatever failed beside it, and \<open>errors\<close> grows by one for every file that cannot be read
  and every directory that cannot be enumerated (for any destination listing:
  \<open>copy_items_errors\<close>).
\<close>

lemma source_failures_isolated:
  assumes "distinct_names items" and "\<forall>n\<in>fst ` set items. map_of d n = None"
  shows "copy_items md5 items d st =
     ((d @ mirror items,
       st\<lparr>folders_copied := folders_copied st + count_folders items,
          files_copied := files_copied st + count_files items,
          errors := errors st + count_failures items\<rparr>), Inr ())
     \<and> consolidate_auto md5 [Some (Dir True items)] d st =
       (d @ mirror items,
        st\<lparr>folders_copied := folders_copied st + count_folders items,
           files_copied := files_copied st + count_files items,
           errors := errors st + count_failures items\<rparr>)"
  using copy_items_mirror[OF assms, of md5 st]
  by (simp add: merged_stats_def)

lemma source_failures_isolated_example:
  "consolidate_auto (\<lambda>bs. CHR ''h'' # bs)
     [Some (Dir True
        [(''A'', Dir True [(''a.txt'', File True ''1'')]),
         (''B'', Dir False [(''b.txt'', File True ''2'')]),
         (''C'', Dir True [(''c.txt'', File True ''3''), (''D'', Dir True [])])])]
     []
     \<lparr>folders_copied = 0, folders_renamed = 0, files_copied = 0, files_renamed = 0,
       files_skipped = 0, errors = 0\<rparr>
   = ([(''A'', Dir True [(''a.txt'', File True ''1'')]),
       (''B'', Dir True []),
       (''C'', Dir True [(''c.txt'', File True ''3''), (''D'', Dir True [])])],
      \<lparr>folders_copied = 4, folders_renamed = 0, files_copied = 2, files_renamed = 0,
        files_skipped = 0, errors = 1\<rparr>)"
proof -
  let ?items = "[(''A'', Dir True [(''a.txt'', File True ''1'')]),
         (''B'', Dir False [(''b.txt'', File True ''2'')]),
         (''C'', Dir True [(''c.txt'', File True ''3''), (''D'', Dir True [])])]"
  have dn: "distinct_names ?items" by simp
  have fr: "\<forall>n\<in>fst ` set ?items. map_of [] n = None" by simp
  show ?thesis
    using source_failures_isolated[OF dn fr, of "\<lambda>bs. CHR ''h'' # bs"
        "\<lparr>folders_copied = 0, folders_renamed = 0, files_copied = 0, files_renamed = 0,
          files_skipped = 0, errors = 0\<rparr>"]
    by simp
qed

text \<open>
  On a destination that accepts every name the functions are the ones above.
\<close>

lemma mkdir_on_all: "mkdir_on (\<lambda>n. True) d name = mkdir d name"
  by (simp add: mkdir_on_def mkdir_def)

lemma copy_folder_tree_on_unfold:
  "copy_folder_tree_on accepts md5 (name, src) parent st =
     (let dest_folder = find_available_name parent name True;
          st1 = (if exists parent name then st\<lparr>folders_renamed := folders_renamed st + 1\<rparr>
                 else st);
          st2 = st1\<lparr>folders_copied := folders_copied st1 + 1\<rparr>
      in if \<not> accepts dest_folder then ((parent, st1), Inl OSError)
         else case iterdir src of
           Inl e \<Rightarrow> ((parent @ [(dest_folder, Dir True [])],
                      st2\<lparr>errors := errors st2 + 1\<rparr>), Inr False)
         | Inr items \<Rightarrow>
             (case copy_items_on accepts md5 items [] st2 of
                ((es', st'), Inl e) \<Rightarrow>
                  ((parent @ [(dest_folder, Dir True es')],
                    st'\<lparr>errors := errors st' + 1\<rparr>), Inr False)
              | ((es', st'), Inr u) \<Rightarrow>
                  ((parent @ [(dest_folder, Dir True es')], st'), Inr True)))"
proof -
  define dn where "dn = find_available_name parent name True"
  have fresh: "map_of parent dn = None"
    unfolding dn_def by (rule find_available_name_None)
  have dn: "(if exists parent name then find_available_name parent name True else name) = dn"
    unfolding dn_def by (rule dest_folder_name)
  have look: "map_of (parent @ [(dn, Dir True [])]) dn = Some (Dir True [])"
    by (rule map_of_snoc_fresh[OF fresh])
  have upd: "AList.update dn v (parent @ [(dn, Dir True [])]) = parent @ [(dn, v)]" for v
    by (rule update_append_fresh[OF fresh])
  have mk: "mkdir_on accepts parent dn
      = (if accepts dn then Inr (parent @ [(dn, Dir True [])]) else Inl OSError)"
    by (simp add: mkdir_on_def fresh)
  have "copy_folder_tree_on accepts md5 (name, src) parent st =
     (let st1 = (if exists parent name then st\<lparr>folders_renamed := folders_renamed st + 1\<rparr>
                 else st);
          st2 = st1\<lparr>folders_copied := folders_copied st1 + 1\<rparr>
      in if \<not> accepts dn then ((parent, st1), Inl OSError)
         else case iterdir src of
           Inl e \<Rightarrow> ((parent @ [(dn, Dir True [])],
                      st2\<lparr>errors := errors st2 + 1\<rparr>), Inr False)
         | Inr items \<Rightarrow>
             (case copy_items_on accepts md5 items [] st2 of
                ((es', st'), Inl e) \<Rightarrow>
                  ((parent @ [(dn, Dir True es')],
                    st'\<lparr>errors := errors st' + 1\<rparr>), Inr False)
              | ((es', st'), Inr u) \<Rightarrow>
                  ((parent @ [(dn, Dir True es')], st'), Inr True)))"
  proof (cases "accepts dn")
    case True
    show ?thesis
      apply (subst copy_folder_tree_on.simps)
      apply (simp only: Let_def fst_conv snd_conv dn mk True if_True not_True_eq_False if_False
          sum.case look option.case node.case upd)
      done
  next
    case False
    show ?thesis
      apply (subst copy_folder_tree_on.simps)
      apply (simp only: Let_def fst_conv snd_conv dn mk False if_False not_False_eq_True if_True
          sum.case)
      done
  qed
  then show ?thesis
    by (simp only: dn_def Let_def)
qed

lemma copy_items_on_all:
  "copy_items_on (\<lambda>n. True) md5 items d st = copy_items md5 items d st"
proof (induction items arbitrary: d st rule: mirror.induct)
  case 1
  show ?case by simp
next
  case (2 n r c rest)
  show ?case by (cases r) (simp_all add: "2.IH" split: prod.splits)
next
  case (3 n l es rest)
  have "copy_folder_tree_on (\<lambda>n. True) md5 (n, Dir l es) d st
      = copy_folder_tree md5 (n, Dir l es) d st"
    by (cases l) (simp_all add: copy_folder_tree_on_unfold copy_folder_tree_unfold "3.IH"(1))
  then show ?case
    by (simp add: "3.IH"(2) split: prod.splits sum.splits)
next
  case (4 n rest)
  show ?case by (simp add: "4.IH")
qed

lemma copy_folder_tree_on_all:
  "copy_folder_tree_on (\<lambda>n. True) md5 (name, src) parent st
     = copy_folder_tree md5 (name, src) parent st"
  by (cases "iterdir src")
     (simp_all add: copy_folder_tree_on_unfold copy_folder_tree_unfold copy_items_on_all)

lemma consolidate_auto_on_all:
  "consolidate_auto_on (\<lambda>n. True) md5 sources master st = consolidate_auto md5 sources master st"
  by (induction sources arbitrary: master st)
     (simp_all add: copy_items_on_all split: option.splits sum.splits prod.splits)

text \<open>
  C7. A failure confined to one subdirectory is counted once and the siblings are still
  copied in full. This fails for a failure of \<^verbatim>\<open>mkdir\<close>, which \<^verbatim>\<open>copy_folder_tree\<close>
  calls before its \<^verbatim>\<open>try\<close>: the exception leaves the function and ends the loop of the
  caller. With source directories \<^verbatim>\<open>A\<close>, \<^verbatim>\<open>B\<close>, \<^verbatim>\<open>C\<close> and a destination that does not
  create \<^verbatim>\<open>B\<close>, the run of \<^verbatim>\<open>consolidate\<close> copies \<^verbatim>\<open>A\<close>, never reaches \<^verbatim>\<open>C\<close> and
  counts no error; inside a source directory \<^verbatim>\<open>P\<close> the same three give one error,
  counted by \<^verbatim>\<open>P\<close>, and \<^verbatim>\<open>C\<close> is not copied either.
\<close>

theorem refused_mkdir_ends_the_loop:
  "consolidate_auto_on (\<lambda>n. n \<noteq> ''B'') (\<lambda>bs. CHR ''h'' # bs)
     [Some (Dir True
        [(''A'', Dir True [(''a.txt'', File True ''1'')]),
         (''B'', Dir True [(''b.txt'', File True ''2'')]),
         (''C'', Dir True [(''c.txt'', File True ''3'')])])]
     []
     \<lparr>folders_copied = 0, folders_renamed = 0, files_copied = 0, files_renamed = 0,
       files_skipped = 0, errors = 0\<rparr>
   = ([(''A'', Dir True [(''a.txt'', File True ''1'')])],
      \<lparr>folders_copied = 1, folders_renamed = 0, files_copied = 1, files_renamed = 0,
        files_skipped = 0, errors = 0\<rparr>)
   \<and> copy_folder_tree_on (\<lambda>n. n \<noteq> ''B'') (\<lambda>bs. CHR ''h'' # bs)
       (''P'', Dir True
        [(''A'', Dir True [(''a.txt'', File True ''1'')]),
         (''B'', Dir True [(''b.txt'', File True ''2'')]),
         (''C'', Dir True [(''c.txt'', File True ''3'')])])
       []
       \<lparr>folders_copied = 0, folders_renamed = 0, files_copied = 0, files_renamed = 0,
         files_skipped = 0, errors = 0\<rparr>
   = (([(''P'', Dir True [(''A'', Dir True [(''a.txt'', File True ''1'')])])],
       \<lparr>folders_copied = 2, folders_renamed = 0, files_copied = 1, files_renamed = 0,
         files_skipped = 0, errors = 1\<rparr>), Inr False)"
  by code_simp

section \<open>The folder counters\<close>

lemma copy_file_folders_copied:
  "folders_copied (snd (fst (copy_file md5 src d dest st))) = folders_copied st"
  by (simp add: copy_file_def Let_def split: option.splits sum.splits)

lemma copy_items_folders_copied:
  "folders_copied (snd (fst (copy_items md5 items d st))) = folders_copied st + count_folders items"
proof (induction items arbitrary: d st rule: mirror.induct)
  case 1
  show ?case by simp
next
  case (2 n r c rest)
  obtain d1 st1 ok where c: "copy_file md5 (n, File r c) d n st = ((d1, st1), ok)"
    by (metis surj_pair)
  from copy_file_folders_copied[of md5 "(n, File r c)" d n st] c
  have "folders_copied st1 = folders_copied st" by simp
  moreover have "folders_copied (snd (fst (copy_items md5 rest d1 st1)))
      = folders_copied st1 + count_folders rest"
    by (cases r) (simp_all add: "2.IH")
  ultimately show ?case using c by simp
next
  case (3 n l es rest)
  define st2 where "st2 = (if exists d n
      then st\<lparr>folders_renamed := folders_renamed st + 1\<rparr> else st)
        \<lparr>folders_copied := folders_copied (if exists d n
      then st\<lparr>folders_renamed := folders_renamed st + 1\<rparr> else st) + 1\<rparr>"
  have st2: "folders_copied st2 = folders_copied st + 1"
    by (simp add: st2_def)
  obtain d1 st1 ok where c: "copy_folder_tree md5 (n, Dir l es) d st = ((d1, st1), Inr ok)"
    using copy_folder_tree_extends by blast
  have st1: "folders_copied st1 = folders_copied st + 1 + (if l then count_folders es else 0)"
  proof (cases l)
    case False
    with c st2 show ?thesis
      by (auto simp: copy_folder_tree_unfold Let_def st2_def)
  next
    case True
    obtain es' st' where e: "copy_items md5 es [] st2 = (([] @ es', st'), Inr ())"
      using copy_items_extends by blast
    from "3.IH"(1)[OF True, of "[]" st2] e st2
    have "folders_copied st' = folders_copied st + 1 + count_folders es" by simp
    moreover from c e True have "st1 = st'"
      by (simp add: copy_folder_tree_unfold Let_def st2_def)
    ultimately show ?thesis using True by simp
  qed
  from "3.IH"(2)[of d1 st1] c st1 show ?case by simp
next
  case (4 n rest)
  from "4.IH"[of d st] show ?case by simp
qed

lemma copy_folder_tree_folders_copied:
  "folders_copied (snd (fst (copy_folder_tree md5 (name, Dir l items) dest_parent st)))
     = folders_copied st + 1 + (if l then count_folders items else 0)"
  using copy_items_folders_copied[of md5 "[(name, Dir l items)]" dest_parent st]
    copy_folder_tree_extends[of md5 name "Dir l items" dest_parent st]
  by auto

text \<open>
  C9, as claimed: \<open>folders_copied\<close> grows only when the destination directory did not
  exist. The code adds one to \<open>folders_copied\<close> after \<^verbatim>\<open>mkdir\<close> in both branches: a
  source folder \<^verbatim>\<open>A\<close> merged into a parent that has \<^verbatim>\<open>A\<close> is created as \<^verbatim>\<open>A_2\<close>
  and counted in \<open>folders_renamed\<close> and in \<open>folders_copied\<close>.
\<close>

theorem folders_copied_on_collision_counterexample:
  "exists [(''A'', Dir True [])] ''A''
   \<and> copy_folder_tree (\<lambda>bs. CHR ''h'' # bs) (''A'', Dir True []) [(''A'', Dir True [])]
       \<lparr>folders_copied = 0, folders_renamed = 0, files_copied = 0, files_renamed = 0,
         files_skipped = 0, errors = 0\<rparr>
     = (([(''A'', Dir True []), (''A_2'', Dir True [])],
         \<lparr>folders_copied = 1, folders_renamed = 1, files_copied = 0, files_renamed = 0,
           files_skipped = 0, errors = 0\<rparr>), Inr True)"
proof -
  have name: "find_available_name [(''A'', Dir True [])] ''A'' True = ''A_2''" by code_simp
  show ?thesis
    by (simp add: copy_folder_tree_unfold name exists_def)
qed

text \<open>
  C9, amended: \<open>folders_copied\<close> grows by one for every source directory that
  \<^verbatim>\<open>copy_folder_tree\<close> processes, whether its destination existed or not, so for every run
  it grows by the number of source directories that the walk reaches; a collision of the
  directory's name adds one to \<open>folders_renamed\<close> as well.
\<close>

theorem folders_copied_counts_every_folder:
  "folders_copied (snd (fst (copy_folder_tree md5 (name, Dir l items) dest_parent st)))
      = folders_copied st + 1 + (if l then count_folders items else 0)
   \<and> folders_copied (snd (fst (copy_items md5 items d st)))
      = folders_copied st + count_folders items
   \<and> (distinct_names items \<longrightarrow>
        folders_renamed (snd (fst (copy_folder_tree md5 (name, Dir True items) dest_parent st)))
          = folders_renamed st + (if exists dest_parent name then 1 else 0))"
  using copy_folder_tree_folders_copied[of md5 name l items dest_parent st]
    copy_items_folders_copied[of md5 items d st]
    copy_folder_tree_mirror[of items md5 name dest_parent st]
  by (simp add: merged_stats_def)

theorem folders_copied_counts_every_folder_witness:
  "folders_copied (snd (fst (copy_folder_tree (\<lambda>bs. CHR ''h'' # bs)
       (''A'', Dir True [(''B'', Dir True [])]) [(''A'', Dir True [])]
       \<lparr>folders_copied = 0, folders_renamed = 0, files_copied = 0, files_renamed = 0,
         files_skipped = 0, errors = 0\<rparr>))) = 2
   \<and> folders_renamed (snd (fst (copy_folder_tree (\<lambda>bs. CHR ''h'' # bs)
       (''A'', Dir True [(''B'', Dir True [])]) [(''A'', Dir True [])]
       \<lparr>folders_copied = 0, folders_renamed = 0, files_copied = 0, files_renamed = 0,
         files_skipped = 0, errors = 0\<rparr>))) = 1"
  using folders_copied_counts_every_folder[of "\<lambda>bs. CHR ''h'' # bs" "''A''" True
      "[(''B'', Dir True [])]" "[(''A'', Dir True [])]"
      "\<lparr>folders_copied = 0, folders_renamed = 0, files_copied = 0, files_renamed = 0,
         files_skipped = 0, errors = 0\<rparr>" "[]"]
  by (simp add: exists_def)

section \<open>A second run\<close>

text \<open>
  C3, as claimed: a second run with the same source root and destination copies and renames
  nothing. A directory of the source root collides with its copy of the first run and is
  copied again, with its files, under a sibling name (\<^verbatim>\<open>sub_2\<close>); \<^verbatim>\<open>folder_consolidator.py\<close>
  copies the whole root again (\<^verbatim>\<open>src_2\<close>); and a file that the first run had to rename,
  without any error, is renamed again (\<^verbatim>\<open>a_3.txt\<close>).
\<close>

theorem second_run_copies_again_counterexample:
  "consolidate_auto (\<lambda>bs. CHR ''h'' # bs)
     [Some (Dir True [(''sub'', Dir True [(''a.txt'', File True ''x'')])])] []
     \<lparr>folders_copied = 0, folders_renamed = 0, files_copied = 0, files_renamed = 0,
       files_skipped = 0, errors = 0\<rparr>
   = ([(''sub'', Dir True [(''a.txt'', File True ''x'')])],
      \<lparr>folders_copied = 1, folders_renamed = 0, files_copied = 1, files_renamed = 0,
        files_skipped = 0, errors = 0\<rparr>)
   \<and> consolidate_auto (\<lambda>bs. CHR ''h'' # bs)
     [Some (Dir True [(''sub'', Dir True [(''a.txt'', File True ''x'')])])]
     [(''sub'', Dir True [(''a.txt'', File True ''x'')])]
     \<lparr>folders_copied = 0, folders_renamed = 0, files_copied = 0, files_renamed = 0,
       files_skipped = 0, errors = 0\<rparr>
   = ([(''sub'', Dir True [(''a.txt'', File True ''x'')]),
       (''sub_2'', Dir True [(''a.txt'', File True ''x'')])],
      \<lparr>folders_copied = 1, folders_renamed = 1, files_copied = 1, files_renamed = 0,
        files_skipped = 0, errors = 0\<rparr>)
   \<and> consolidate (\<lambda>bs. CHR ''h'' # bs)
     [(''src'', Some (Dir True [(''a.txt'', File True ''x'')]))] []
     \<lparr>folders_copied = 0, folders_renamed = 0, files_copied = 0, files_renamed = 0,
       files_skipped = 0, errors = 0\<rparr>
   = (([(''src'', Dir True [(''a.txt'', File True ''x'')])],
       \<lparr>folders_copied = 1, folders_renamed = 0, files_copied = 1, files_renamed = 0,
         files_skipped = 0, errors = 0\<rparr>), Inr ())
   \<and> consolidate (\<lambda>bs. CHR ''h'' # bs)
     [(''src'', Some (Dir True [(''a.txt'', File True ''x'')]))]
     [(''src'', Dir True [(''a.txt'', File True ''x'')])]
     \<lparr>folders_copied = 0, folders_renamed = 0, files_copied = 0, files_renamed = 0,
       files_skipped = 0, errors = 0\<rparr>
   = (([(''src'', Dir True [(''a.txt'', File True ''x'')]),
        (''src_2'', Dir True [(''a.txt'', File True ''x'')])],
       \<lparr>folders_copied = 1, folders_renamed = 1, files_copied = 1, files_renamed = 0,
         files_skipped = 0, errors = 0\<rparr>), Inr ())
   \<and> consolidate_auto (\<lambda>bs. CHR ''h'' # bs)
     [Some (Dir True [(''a.txt'', File True ''new'')])]
     [(''a.txt'', File True ''old'')]
     \<lparr>folders_copied = 0, folders_renamed = 0, files_copied = 0, files_renamed = 0,
       files_skipped = 0, errors = 0\<rparr>
   = ([(''a.txt'', File True ''old''), (''a_2.txt'', File True ''new'')],
      \<lparr>folders_copied = 0, folders_renamed = 0, files_copied = 0, files_renamed = 1,
        files_skipped = 0, errors = 0\<rparr>)
   \<and> consolidate_auto (\<lambda>bs. CHR ''h'' # bs)
     [Some (Dir True [(''a.txt'', File True ''new'')])]
     [(''a.txt'', File True ''old''), (''a_2.txt'', File True ''new'')]
     \<lparr>folders_copied = 0, folders_renamed = 0, files_copied = 0, files_renamed = 0,
       files_skipped = 0, errors = 0\<rparr>
   = ([(''a.txt'', File True ''old''), (''a_2.txt'', File True ''new''),
       (''a_3.txt'', File True ''new'')],
      \<lparr>folders_copied = 0, folders_renamed = 0, files_copied = 0, files_renamed = 1,
        files_skipped = 0, errors = 0\<rparr>)"
  by code_simp

lemma map_of_prefix_Some: "map_of d n = Some x \<Longrightarrow> map_of (d @ new) n = Some x"
  by (simp add: map_of_append map_add_def)

lemma already_merged_append: "already_merged md5 items d \<Longrightarrow> already_merged md5 items (d @ new)"
  unfolding already_merged_def list_all_iff
proof
  fix e
  assume "\<forall>e\<in>set items. case snd e of
             File r c \<Rightarrow> r \<and> (case map_of d (fst e) of
                                 Some x \<Rightarrow> get_file_hash md5 x = Some (md5 c)
                               | None \<Rightarrow> False)
           | _ \<Rightarrow> True" and "e \<in> set items"
  then have h: "case snd e of
             File r c \<Rightarrow> r \<and> (case map_of d (fst e) of
                                 Some x \<Rightarrow> get_file_hash md5 x = Some (md5 c)
                               | None \<Rightarrow> False)
           | _ \<Rightarrow> True"
    by blast
  show "case snd e of
             File r c \<Rightarrow> r \<and> (case map_of (d @ new) (fst e) of
                                 Some x \<Rightarrow> get_file_hash md5 x = Some (md5 c)
                               | None \<Rightarrow> False)
           | _ \<Rightarrow> True"
  proof (cases "snd e")
    case (File r c)
    with h obtain x where "r" "map_of d (fst e) = Some x" "get_file_hash md5 x = Some (md5 c)"
      by (auto split: option.splits)
    with File map_of_prefix_Some[of d "fst e" x new] show ?thesis by simp
  qed simp_all
qed

lemma first_run_step:
  assumes "copy_file md5 (n, File r c) d n st = ((d', st'), ok)"
    and "errors st' = errors st" and "files_renamed st' = files_renamed st"
  shows "r \<and> (\<exists>x. map_of d' n = Some x \<and> get_file_hash md5 x = Some (md5 c))"
proof (cases "map_of d n")
  case None
  with assms show ?thesis
    by (auto simp: copy_file_def copy2_missing map_add_def get_file_hash_def
        split: if_splits)
next
  case (Some existing)
  have fr: "map_of d (find_available_name d n False) = None"
    by (rule find_available_name_None)
  show ?thesis
  proof (cases "are_files_identical md5 (File r c) existing")
    case True
    then have "r \<and> get_file_hash md5 existing = Some (md5 c)"
      by (auto simp: are_files_identical_def get_file_hash_def
          split: option.splits node.splits if_splits)
    with assms Some True show ?thesis by (simp add: copy_file_def)
  next
    case False
    with assms Some show ?thesis
      by (auto simp: copy_file_def copy2_missing[OF fr] split: if_splits)
  qed
qed

lemma copy_file_errors:
  "errors (snd (fst (copy_file md5 (n, File r c) d dest st))) = errors st + (if r then 0 else 1)"
proof (cases r)
  case False
  then show ?thesis by (simp add: copy_file_unreadable)
next
  case True
  have fr: "map_of d (find_available_name d dest False) = None"
    by (rule find_available_name_None)
  from True show ?thesis
    by (simp add: copy_file_def copy2_missing copy2_missing[OF fr] split: option.splits)
qed

lemma copy_items_errors:
  "errors (snd (fst (copy_items md5 items d st))) = errors st + count_failures items"
proof (induction items arbitrary: d st rule: mirror.induct)
  case 1
  show ?case by simp
next
  case (2 n r c rest)
  obtain d1 st1 ok where c: "copy_file md5 (n, File r c) d n st = ((d1, st1), ok)"
    by (metis surj_pair)
  from copy_file_errors[of md5 n r c d n st] c
  have "errors st1 = errors st + (if r then 0 else 1)" by simp
  moreover have "errors (snd (fst (copy_items md5 rest d1 st1)))
      = errors st1 + count_failures rest"
    by (cases r) (simp_all add: "2.IH")
  ultimately show ?case using c by simp
next
  case (3 n l es rest)
  define st2 where "st2 = (if exists d n
      then st\<lparr>folders_renamed := folders_renamed st + 1\<rparr> else st)
        \<lparr>folders_copied := folders_copied (if exists d n
      then st\<lparr>folders_renamed := folders_renamed st + 1\<rparr> else st) + 1\<rparr>"
  have st2: "errors st2 = errors st"
    by (simp add: st2_def)
  obtain d1 st1 ok where c: "copy_folder_tree md5 (n, Dir l es) d st = ((d1, st1), Inr ok)"
    using copy_folder_tree_extends by blast
  have st1: "errors st1 = errors st + (if l then count_failures es else 1)"
  proof (cases l)
    case False
    with c st2 show ?thesis
      by (auto simp: copy_folder_tree_unfold Let_def st2_def)
  next
    case True
    obtain es' st' where e: "copy_items md5 es [] st2 = (([] @ es', st'), Inr ())"
      using copy_items_extends by blast
    from "3.IH"(1)[OF True, of "[]" st2] e st2
    have "errors st' = errors st + count_failures es" by simp
    moreover from c e True have "st1 = st'"
      by (simp add: copy_folder_tree_unfold Let_def st2_def)
    ultimately show ?thesis using True by simp
  qed
  from "3.IH"(2)[of d1 st1] c st1 show ?case by simp
next
  case (4 n rest)
  from "4.IH"[of d st] show ?case by simp
qed

lemma copy_file_renamed_mono:
  "files_renamed st \<le> files_renamed (snd (fst (copy_file md5 src d dest st)))"
  by (simp add: copy_file_def Let_def split: option.splits sum.splits)

lemma copy_items_renamed_mono:
  "files_renamed st \<le> files_renamed (snd (fst (copy_items md5 items d st)))"
proof (induction items arbitrary: d st rule: mirror.induct)
  case 1
  show ?case by simp
next
  case (2 n r c rest)
  obtain d1 st1 ok where c: "copy_file md5 (n, File r c) d n st = ((d1, st1), ok)"
    by (metis surj_pair)
  from copy_file_renamed_mono[of st md5 "(n, File r c)" d n] c
  have "files_renamed st \<le> files_renamed st1" by simp
  moreover have "files_renamed st1 \<le> files_renamed (snd (fst (copy_items md5 rest d1 st1)))"
    by (cases r) (simp_all add: "2.IH")
  ultimately show ?case using c by simp
next
  case (3 n l es rest)
  define st2 where "st2 = (if exists d n
      then st\<lparr>folders_renamed := folders_renamed st + 1\<rparr> else st)
        \<lparr>folders_copied := folders_copied (if exists d n
      then st\<lparr>folders_renamed := folders_renamed st + 1\<rparr> else st) + 1\<rparr>"
  have st2: "files_renamed st2 = files_renamed st"
    by (simp add: st2_def)
  obtain d1 st1 ok where c: "copy_folder_tree md5 (n, Dir l es) d st = ((d1, st1), Inr ok)"
    using copy_folder_tree_extends by blast
  have st1: "files_renamed st \<le> files_renamed st1"
  proof (cases l)
    case False
    with c st2 show ?thesis
      by (auto simp: copy_folder_tree_unfold Let_def st2_def)
  next
    case True
    obtain es' st' where e: "copy_items md5 es [] st2 = (([] @ es', st'), Inr ())"
      using copy_items_extends by blast
    from "3.IH"(1)[OF True, of st2 "[]"] e st2
    have "files_renamed st \<le> files_renamed st'" by simp
    moreover from c e True have "st1 = st'"
      by (simp add: copy_folder_tree_unfold Let_def st2_def)
    ultimately show ?thesis by simp
  qed
  from "3.IH"(2)[of st1 d1] c st1 show ?case by simp
next
  case (4 n rest)
  from "4.IH"[of st d] show ?case by simp
qed

lemma first_run_merges_all:
  assumes "copy_items md5 items d st = ((d1, st1), r)"
    and "errors st1 = errors st" and "files_renamed st1 = files_renamed st"
  shows "already_merged md5 items d1"
  using assms
proof (induction items arbitrary: d st)
  case Nil
  show ?case by (simp add: already_merged_def)
next
  case (Cons item rest)
  obtain d' st' where step: "copy_items md5 [item] d st = ((d', st'), Inr ())"
    using copy_items_extends[of md5 "[item]" d st] by auto
  have run: "copy_items md5 rest d' st' = ((d1, st1), r)"
  proof (cases "snd item")
    case (File rd c)
    with step Cons.prems(1) show ?thesis by (auto split: prod.splits)
  next
    case (Dir l es)
    with step Cons.prems(1) show ?thesis by (auto split: prod.splits sum.splits)
  next
    case Other
    with step Cons.prems(1) show ?thesis by simp
  qed
  from copy_items_errors[of md5 "[item]" d st] copy_items_renamed_mono[of st md5 "[item]" d] step
  have m1: "errors st \<le> errors st'" "files_renamed st \<le> files_renamed st'" by simp_all
  from copy_items_errors[of md5 rest d' st'] copy_items_renamed_mono[of st' md5 rest d'] run
  have m2: "errors st' \<le> errors st1" "files_renamed st' \<le> files_renamed st1" by simp_all
  from m1 m2 Cons.prems(2,3) have eq: "errors st' = errors st" "files_renamed st' = files_renamed st"
    "errors st1 = errors st'" "files_renamed st1 = files_renamed st'"
    by simp_all
  have rest: "already_merged md5 rest d1"
    by (rule Cons.IH[OF run eq(3,4)])
  show ?case
  proof (cases "snd item")
    case (File rd c)
    then have item: "item = (fst item, File rd c)" by (cases item) simp
    obtain ok where c: "copy_file md5 (fst item, File rd c) d (fst item) st = ((d', st'), ok)"
      using step File item by (auto split: prod.splits)
    from first_run_step[OF c eq(1,2)] obtain x where
      x: "rd" "map_of d' (fst item) = Some x" "get_file_hash md5 x = Some (md5 c)"
      by blast
    obtain new st2 where "copy_items md5 rest d' st' = ((d' @ new, st2), Inr ())"
      using copy_items_extends by blast
    with run have d1: "d1 = d' @ new" by simp
    have "map_of d1 (fst item) = Some x"
      unfolding d1 by (rule map_of_prefix_Some[OF x(2)])
    with rest File x show ?thesis by (simp add: already_merged_def)
  next
    case (Dir l es)
    with rest show ?thesis by (simp add: already_merged_def)
  next
    case Other
    with rest show ?thesis by (simp add: already_merged_def)
  qed
qed


lemma distinct_names_tail: "distinct_names (item # rest) \<Longrightarrow> distinct_names rest"
  by (cases item; cases "snd item") auto

lemma copy_folder_tree_file_counters:
  assumes "distinct_names es"
  shows "\<exists>new st3 ok. copy_folder_tree md5 (n, Dir l es) d st = ((d @ new, st3), Inr ok)
     \<and> files_skipped st3 = files_skipped st
     \<and> files_renamed st3 = files_renamed st
     \<and> files_copied st3 = files_copied st + (if l then count_files es else 0)"
proof (cases l)
  case True
  with copy_folder_tree_mirror[OF assms, of md5 n d st] show ?thesis
    by (auto simp: merged_stats_def)
next
  case False
  then show ?thesis
    by (auto simp: copy_folder_tree_unfold Let_def)
qed

lemma second_run_file_counters:
  assumes "\<And>bs. md5 bs \<noteq> []"
    and "distinct_names items"
    and "already_merged md5 items d"
  shows "\<exists>new st2. copy_items md5 items d st = ((d @ new, st2), Inr ())
     \<and> files_skipped st2 = files_skipped st + length (filter (\<lambda>e. is_file (snd e)) items)
     \<and> files_renamed st2 = files_renamed st
     \<and> files_copied st2 = files_copied st + count_files (filter (\<lambda>e. is_dir (snd e)) items)"
  using assms(2,3)
proof (induction items arbitrary: d st)
  case Nil
  show ?case by simp
next
  case (Cons item rest)
  from Cons.prems(1) have dist: "distinct_names rest" by (rule distinct_names_tail)
  from Cons.prems(2) have am: "already_merged md5 rest d" by (simp add: already_merged_def)
  show ?case
  proof (cases "snd item")
    case (File rd c)
    with Cons.prems(2) obtain x where x: "rd" "map_of d (fst item) = Some x"
      "get_file_hash md5 x = Some (md5 c)"
      by (auto simp: already_merged_def split: option.splits)
    have "are_files_identical md5 (File rd c) x"
      using x assms(1) by (simp add: are_files_identical_def get_file_hash_def)
    with x File have step: "copy_file md5 item d (fst item) st
        = ((d, st\<lparr>files_skipped := files_skipped st + 1\<rparr>), True)"
      by (simp add: copy_file_def)
    from Cons.IH[OF dist am, of "st\<lparr>files_skipped := files_skipped st + 1\<rparr>"]
    obtain new st2 where r:
      "copy_items md5 rest d (st\<lparr>files_skipped := files_skipped st + 1\<rparr>) = ((d @ new, st2), Inr ())"
      "files_skipped st2 = files_skipped st + 1 + length (filter (\<lambda>e. is_file (snd e)) rest)"
      "files_renamed st2 = files_renamed st"
      "files_copied st2 = files_copied st + count_files (filter (\<lambda>e. is_dir (snd e)) rest)"
      by auto
    from File step r show ?thesis by simp
  next
    case (Dir l es)
    then have item: "item = (fst item, Dir l es)" by (cases item) simp
    with Cons.prems(1) have diste: "distinct_names es"
      by (cases item) auto
    from copy_folder_tree_file_counters[OF diste, of md5 "fst item" l d st]
    obtain new1 st3 ok where t:
      "copy_folder_tree md5 (fst item, Dir l es) d st = ((d @ new1, st3), Inr ok)"
      "files_skipped st3 = files_skipped st" "files_renamed st3 = files_renamed st"
      "files_copied st3 = files_copied st + (if l then count_files es else 0)"
      by blast
    have am': "already_merged md5 rest (d @ new1)"
      by (rule already_merged_append[OF am])
    from Cons.IH[OF dist am', of st3]
    obtain new st2 where r:
      "copy_items md5 rest (d @ new1) st3 = (((d @ new1) @ new, st2), Inr ())"
      "files_skipped st2 = files_skipped st3 + length (filter (\<lambda>e. is_file (snd e)) rest)"
      "files_renamed st2 = files_renamed st3"
      "files_copied st2 = files_copied st3 + count_files (filter (\<lambda>e. is_dir (snd e)) rest)"
      by auto
    have cf: "count_files (filter (\<lambda>e. is_dir (snd e)) (item # rest))
        = (if l then count_files es else 0) + count_files (filter (\<lambda>e. is_dir (snd e)) rest)"
      by (subst item) (simp del: fst_conv)
    have run: "copy_items md5 (item # rest) d st = ((d @ (new1 @ new), st2), Inr ())"
      using t(1) r(1) Dir item by (subst item) simp
    from Dir r(2-4) t(2-4) cf run show ?thesis
      by (intro exI[of _ "new1 @ new"] exI[of _ st2]) simp
  next
    case Other
    from Cons.IH[OF dist am, of st] Other show ?thesis by simp
  qed
qed

text \<open>
  C3, amended: after a first run of \<^verbatim>\<open>consolidate_auto.py\<close> that counted no error and
  renamed no file, a second run with the same source root and the resulting destination
  renames no file and counts no error; every file directly in the source root is counted in
  \<open>files_skipped\<close> and is not copied; the files inside the directories of the root are
  copied again and counted in \<open>files_copied\<close>, each directory of the root being created
  once more under a sibling name; and nothing that the destination held is changed. With
  \<^verbatim>\<open>folder_consolidator.py\<close> the source root itself is such a directory: a run on a
  destination that has it copies all its files again and skips and renames none.
\<close>

theorem second_run_skips_root_files_only:
  assumes "\<And>bs. md5 bs \<noteq> []"
    and "distinct_names items"
    and "consolidate_auto md5 [Some (Dir True items)] master st = (master1, st1)"
    and "errors st1 = errors st" and "files_renamed st1 = files_renamed st"
  shows "files_skipped (snd (consolidate_auto md5 [Some (Dir True items)] master1 st'))
           = files_skipped st' + length (filter (\<lambda>e. is_file (snd e)) items)
     \<and> files_renamed (snd (consolidate_auto md5 [Some (Dir True items)] master1 st'))
           = files_renamed st'
     \<and> files_copied (snd (consolidate_auto md5 [Some (Dir True items)] master1 st'))
           = files_copied st' + count_files (filter (\<lambda>e. is_dir (snd e)) items)
     \<and> errors (snd (consolidate_auto md5 [Some (Dir True items)] master1 st')) = errors st'
     \<and> prefix master1 (fst (consolidate_auto md5 [Some (Dir True items)] master1 st'))
     \<and> files_skipped (snd (fst (consolidate md5 [(name, Some (Dir True items))] m st')))
           = files_skipped st'
     \<and> files_renamed (snd (fst (consolidate md5 [(name, Some (Dir True items))] m st')))
           = files_renamed st'
     \<and> files_copied (snd (fst (consolidate md5 [(name, Some (Dir True items))] m st')))
           = files_copied st' + count_files items"
proof -
  obtain r where run: "copy_items md5 items master st = ((master1, st1), r)"
    using assms(3) by (auto split: prod.splits)
  have am: "already_merged md5 items master1"
    by (rule first_run_merges_all[OF run assms(4,5)])
  from copy_items_errors[of md5 items master st] run assms(4)
  have nofail: "count_failures items = 0" by simp
  from second_run_file_counters[OF assms(1,2) am, of st']
  obtain new st2 where s:
    "copy_items md5 items master1 st' = ((master1 @ new, st2), Inr ())"
    "files_skipped st2 = files_skipped st' + length (filter (\<lambda>e. is_file (snd e)) items)"
    "files_renamed st2 = files_renamed st'"
    "files_copied st2 = files_copied st' + count_files (filter (\<lambda>e. is_dir (snd e)) items)"
    by blast
  from copy_items_errors[of md5 items master1 st'] s(1) nofail
  have e: "errors st2 = errors st'" by simp
  have auto_run: "consolidate_auto md5 [Some (Dir True items)] master1 st' = (master1 @ new, st2)"
    using s(1) by simp
  from copy_folder_tree_file_counters[OF assms(2), of md5 name True m st']
  obtain new1 st3 ok where t:
    "copy_folder_tree md5 (name, Dir True items) m st' = ((m @ new1, st3), Inr ok)"
    "files_skipped st3 = files_skipped st'" "files_renamed st3 = files_renamed st'"
    "files_copied st3 = files_copied st' + count_files items"
    by auto
  have fc_run: "consolidate md5 [(name, Some (Dir True items))] m st' = ((m @ new1, st3), Inr ())"
    using t(1) by (simp add: copy_folder_tree_fc_def)
  show ?thesis
    unfolding auto_run fc_run using s(2-4) e t(2-4) by simp
qed

theorem second_run_skips_root_files_only_witness:
  "files_skipped (snd (consolidate_auto (\<lambda>bs. CHR ''h'' # bs)
      [Some (Dir True [(''a.txt'', File True ''x''),
                       (''sub'', Dir True [(''b.txt'', File True ''y'')])])]
      [(''a.txt'', File True ''x''), (''sub'', Dir True [(''b.txt'', File True ''y'')])]
      \<lparr>folders_copied = 0, folders_renamed = 0, files_copied = 0, files_renamed = 0,
        files_skipped = 0, errors = 0\<rparr>)) = 1
   \<and> files_renamed (snd (consolidate_auto (\<lambda>bs. CHR ''h'' # bs)
      [Some (Dir True [(''a.txt'', File True ''x''),
                       (''sub'', Dir True [(''b.txt'', File True ''y'')])])]
      [(''a.txt'', File True ''x''), (''sub'', Dir True [(''b.txt'', File True ''y'')])]
      \<lparr>folders_copied = 0, folders_renamed = 0, files_copied = 0, files_renamed = 0,
        files_skipped = 0, errors = 0\<rparr>)) = 0
   \<and> files_copied (snd (consolidate_auto (\<lambda>bs. CHR ''h'' # bs)
      [Some (Dir True [(''a.txt'', File True ''x''),
                       (''sub'', Dir True [(''b.txt'', File True ''y'')])])]
      [(''a.txt'', File True ''x''), (''sub'', Dir True [(''b.txt'', File True ''y'')])]
      \<lparr>folders_copied = 0, folders_renamed = 0, files_copied = 0, files_renamed = 0,
        files_skipped = 0, errors = 0\<rparr>)) = 1"
proof -
  let ?md5 = "\<lambda>bs. CHR ''h'' # bs"
  let ?items = "[(''a.txt'', File True ''x''), (''sub'', Dir True [(''b.txt'', File True ''y'')])]"
  let ?z = "\<lparr>folders_copied = 0, folders_renamed = 0, files_copied = 0, files_renamed = 0,
       files_skipped = 0, errors = 0\<rparr>"
  have ne: "\<And>bs. ?md5 bs \<noteq> []" by simp
  have dn: "distinct_names ?items" by simp
  have first: "consolidate_auto ?md5 [Some (Dir True ?items)] [] ?z
      = ([(''a.txt'', File True ''x''), (''sub'', Dir True [(''b.txt'', File True ''y'')])],
         \<lparr>folders_copied = 1, folders_renamed = 0, files_copied = 2, files_renamed = 0,
           files_skipped = 0, errors = 0\<rparr>)"
    by code_simp
  show ?thesis
    using second_run_skips_root_files_only[OF ne dn first, of ?z]
    by simp
qed

section \<open>The cleaner\<close>


lemma lookup_Cons_Dir_Nil [simp]: "lookup (Dir l []) (n # p) = None"
  by simp












lemma rglob_sub_iff:
  "q \<in> set (rglob_sub es) \<longleftrightarrow> (\<exists>e\<in>set es. \<exists>q'. q = fst e # q' \<and> q' \<in> set (rglob (snd e)))"
  by (induction es) auto


lemma rglob_nonempty: "q \<in> set (rglob fs) \<Longrightarrow> q \<noteq> []"
  by (cases fs) (auto simp: rglob_sub_iff)

lemma rglob_not_dir: "\<not> is_dir x \<Longrightarrow> rglob x = []"
  by (cases x) simp_all
























end
